theory Spec2Isabelle
  imports Complex_Main "HOL-Library.Multiset"
begin

section \<open>Characters and strings\<close>

text \<open>
  Page text is a \<^typ>\<open>string\<close>, its characters the 256 code points of Latin-1. The
  character classes of the patterns (\<open>\d\<close>, \<open>\w\<close>, \<open>\s\<close>), the blanks of \<open>str.strip\<close> and
  the case folding of \<open>re.IGNORECASE\<close> are Python's on these code points: the only decimal
  digits are \<open>0\<close> to \<open>9\<close>, a word character is an ASCII or Latin-1 letter or numeric or the
  underscore, a blank is an ASCII blank, a separator \<open>0x1C\<close> to \<open>0x1F\<close>, \<open>0x85\<close> or \<open>0xA0\<close>, and
  only the ASCII letters of the patterns have another case that matches them.
\<close>

definition is_digit :: "char \<Rightarrow> bool" where
  "is_digit c = (c \<in> set ''0123456789'')"

definition is_alpha :: "char \<Rightarrow> bool" where
  "is_alpha c =
     (c \<in> set ''abcdefghijklmnopqrstuvwxyz'' \<or> c \<in> set ''ABCDEFGHIJKLMNOPQRSTUVWXYZ'')"

text \<open>
  The letters and numerics of Latin-1 beyond ASCII: \<open>0xAA\<close>, \<open>0xB5\<close>, \<open>0xBA\<close>, the
  superscripts \<open>0xB2 0xB3 0xB9\<close>, the fractions \<open>0xBC\<close> to \<open>0xBE\<close>, and \<open>0xC0\<close> to \<open>0xFF\<close>
  without the signs \<open>0xD7\<close> and \<open>0xF7\<close>.
\<close>

definition is_latin1_word :: "char \<Rightarrow> bool" where
  "is_latin1_word c =
     (let n = (of_char c :: nat) in
      n \<in> {0xAA, 0xB2, 0xB3, 0xB5, 0xB9, 0xBA, 0xBC, 0xBD, 0xBE} \<or>
      (0xC0 \<le> n \<and> n \<le> 0xFF \<and> n \<noteq> 0xD7 \<and> n \<noteq> 0xF7))"

definition is_word :: "char \<Rightarrow> bool" where
  "is_word c = (is_alpha c \<or> is_digit c \<or> c = CHR ''_'' \<or> is_latin1_word c)"

definition is_space :: "char \<Rightarrow> bool" where
  "is_space c =
     (c \<in> set [CHR '' '', CHR 0x09, CHR 0x0A, CHR 0x0B, CHR 0x0C, CHR 0x0D,
                CHR 0x1C, CHR 0x1D, CHR 0x1E, CHR 0x1F, CHR 0x85, CHR 0xA0])"

definition lower :: "char \<Rightarrow> char" where
  "lower c =
     (case map_of (zip ''ABCDEFGHIJKLMNOPQRSTUVWXYZ'' ''abcdefghijklmnopqrstuvwxyz'') c of
        None \<Rightarrow> c
      | Some l \<Rightarrow> l)"

text \<open>\<open>str.strip()\<close>: blanks removed at both ends.\<close>

definition strip :: "string \<Rightarrow> string" where
  "strip s = rev (dropWhile is_space (rev (dropWhile is_space s)))"

text \<open>\<open>needle in s\<close> on strings: \<open>needle\<close> occurs as a contiguous part of \<open>s\<close>.\<close>

fun is_prefix :: "string \<Rightarrow> string \<Rightarrow> bool" where
  "is_prefix [] s = True"
| "is_prefix (c # cs) [] = False"
| "is_prefix (c # cs) (x # xs) = (c = x \<and> is_prefix cs xs)"

fun contains :: "string \<Rightarrow> string \<Rightarrow> bool" where
  "contains needle [] = is_prefix needle []"
| "contains needle (x # xs) = (is_prefix needle (x # xs) \<or> contains needle xs)"

text \<open>\<open>s.split('/')[-1]\<close>: what follows the last slash, the whole string when it has none.\<close>

definition last_token :: "string \<Rightarrow> string" where
  "last_token s = rev (takeWhile (\<lambda>c. c \<noteq> CHR ''/'') (rev s))"

text \<open>Decimal digits and their values.\<close>

definition digit_val :: "char \<Rightarrow> nat" where
  "digit_val c = (case map_of (zip ''0123456789'' [0, 1, 2, 3, 4, 5, 6, 7, 8, 9]) c of
                    None \<Rightarrow> 0 | Some n \<Rightarrow> n)"

definition digits_val :: "string \<Rightarrow> nat" where
  "digits_val s = foldl (\<lambda>acc c. 10 * acc + digit_val c) 0 s"

definition digit_char :: "nat \<Rightarrow> char" where
  "digit_char n = ''0123456789'' ! (n mod 10)"

definition pad2 :: "nat \<Rightarrow> string" where
  "pad2 n = [digit_char (n div 10), digit_char n]"

definition pad4 :: "nat \<Rightarrow> string" where
  "pad4 n = [digit_char (n div 1000), digit_char (n div 100), digit_char (n div 10), digit_char n]"


section \<open>Regular expressions with Python's backtracking order\<close>

text \<open>
  The patterns of the program use literals, the classes \<open>\d \w \s\<close>, bracket sets,
  \<open>?\<close>, \<open>*\<close>, \<open>+\<close>, \<open>{n}\<close>, alternation and one capturing group. All searches are made
  with \<open>re.IGNORECASE\<close>, so a literal matches either case.
\<close>

datatype atom = Lit char | Digit | Word | Space

fun atom_ok :: "atom \<Rightarrow> char \<Rightarrow> bool" where
  "atom_ok (Lit c) x = (lower x = lower c)"
| "atom_ok Digit x = is_digit x"
| "atom_ok Word x = is_word x"
| "atom_ok Space x = is_space x"

datatype rx =
    Eps
  | Cls "atom list"
  | Seq rx rx
  | Alt rx rx
  | Opt rx
  | Star rx

definition cls_ok :: "atom list \<Rightarrow> char \<Rightarrow> bool" where
  "cls_ok as x = list_ex (\<lambda>a. atom_ok a x) as"

text \<open>
  \<open>star_iter step n s\<close>: the greedy loop of \<open>*\<close>. Each round must consume input, so
  \<open>length s\<close> rounds are enough; the longer continuations come first, the exit of the
  loop last.
\<close>

primrec star_iter :: "(string \<Rightarrow> string list) \<Rightarrow> nat \<Rightarrow> string \<Rightarrow> string list" where
  "star_iter step 0 s = [s]"
| "star_iter step (Suc n) s =
     concat (map (star_iter step n) (filter (\<lambda>t. length t < length s) (step s))) @ [s]"

text \<open>
  \<open>rmatch r s\<close> lists the remainders of \<open>s\<close> after every way \<open>r\<close> can match a prefix of
  \<open>s\<close>, in the order the backtracking matcher tries them: the left alternative before
  the right one, one more repetition before stopping.
\<close>

primrec rmatch :: "rx \<Rightarrow> string \<Rightarrow> string list" where
  "rmatch Eps s = [s]"
| "rmatch (Cls as) s = (case s of [] \<Rightarrow> [] | x # xs \<Rightarrow> if cls_ok as x then [xs] else [])"
| "rmatch (Seq a b) s = concat (map (rmatch b) (rmatch a s))"
| "rmatch (Alt a b) s = rmatch a s @ rmatch b s"
| "rmatch (Opt a) s = rmatch a s @ [s]"
| "rmatch (Star a) s = star_iter (rmatch a) (length s) s"

definition lit :: "char \<Rightarrow> rx" where
  "lit c = Cls [Lit c]"

definition lits :: "string \<Rightarrow> rx" where
  "lits s = foldr (\<lambda>c r. Seq (lit c) r) s Eps"

definition seqs :: "rx list \<Rightarrow> rx" where
  "seqs rs = foldr Seq rs Eps"

definition Plus :: "rx \<Rightarrow> rx" where
  "Plus r = Seq r (Star r)"

definition digit :: rx where
  "digit = Cls [Digit]"

text \<open>
  \<open>groups rs s\<close> matches the regular expressions \<open>rs\<close> one after the other on \<open>s\<close> and
  lists, in backtracking order, the text each of them consumed together with the
  remainder.
\<close>

fun groups :: "rx list \<Rightarrow> string \<Rightarrow> (string list \<times> string) list" where
  "groups [] s = [([], s)]"
| "groups (r # rs) s =
     concat (map (\<lambda>t. map (\<lambda>(gs, u). (take (length s - length t) s # gs, u)) (groups rs t))
                 (rmatch r s))"

text \<open>
  A pattern of the program: what stands before its capturing group, the group, and what
  stands after it.
\<close>

record pat =
  pre :: rx
  grp :: rx
  post :: rx

text \<open>\<open>re.match\<close> at one position: group 1 of the first match in backtracking order.\<close>

definition match_at :: "pat \<Rightarrow> string \<Rightarrow> string option" where
  "match_at p s =
     (case groups [pre p, grp p, post p] s of
        [] \<Rightarrow> None
      | (gs, u) # _ \<Rightarrow> Some (gs ! 1))"

text \<open>\<open>re.search(pattern, text, re.IGNORECASE)\<close> followed by \<open>.group(1)\<close>: the leftmost match.\<close>

fun re_search :: "pat \<Rightarrow> string \<Rightarrow> string option" where
  "re_search p [] = match_at p []"
| "re_search p (c # cs) =
     (case match_at p (c # cs) of
        Some g \<Rightarrow> Some g
      | None \<Rightarrow> re_search p cs)"


section \<open>The patterns of the program\<close>

definition colon_blanks :: rx where
  "colon_blanks = Seq (Opt (lit CHR '':'')) (Star (Cls [Space]))"

text \<open>\<^verbatim>\<open>(Xpert'?s LLC)\<close>, \<^verbatim>\<open>(Ceres Environmental Services,\s*Inc\.?)\<close>,
  \<^verbatim>\<open>(Wright Tree Service of Puerto Rico,\s*LLC)\<close>\<close>

definition xperts_pat :: pat where
  "xperts_pat =
     \<lparr>pre = Eps,
      grp = seqs [lits ''Xpert'', Opt (lit (CHR 0x27)), lits ''s LLC''],
      post = Eps\<rparr>"

definition ceres_pat :: pat where
  "ceres_pat =
     \<lparr>pre = Eps,
      grp = seqs [lits ''Ceres Environmental Services,'', Star (Cls [Space]), lits ''Inc'',
                  Opt (lit CHR ''.'')],
      post = Eps\<rparr>"

definition wright_pat :: pat where
  "wright_pat =
     \<lparr>pre = Eps,
      grp = seqs [lits ''Wright Tree Service of Puerto Rico,'', Star (Cls [Space]),
                  lits ''LLC''],
      post = Eps\<rparr>"

definition contractor_patterns :: "pat list" where
  "contractor_patterns = [xperts_pat, ceres_pat, wright_pat]"

text \<open>\<^verbatim>\<open>Task Order Number:?\s*([\w-]+)\<close>\<close>

definition task_order_pat :: pat where
  "task_order_pat =
     \<lparr>pre = Seq (lits ''Task Order Number'') colon_blanks,
      grp = Plus (Cls [Word, Lit CHR ''-'']),
      post = Eps\<rparr>"

text \<open>\<^verbatim>\<open>Task Order Total Amount:?\s*\$?([\d,]+\.\d{2})\<close>\<close>

definition amount_grp :: rx where
  "amount_grp = seqs [Plus (Cls [Digit, Lit CHR '','']), lit CHR ''.'', digit, digit]"

definition total_amount_pat :: pat where
  "total_amount_pat =
     \<lparr>pre = seqs [lits ''Task Order Total Amount'', colon_blanks, Opt (lit CHR ''$'')],
      grp = amount_grp,
      post = Eps\<rparr>"

text \<open>\<^verbatim>\<open>(?:Feeder|Feeder ID:?)\s*(\d{4}-\d{2})\<close>\<close>

definition feeder_id_pat :: pat where
  "feeder_id_pat =
     \<lparr>pre = Seq (Alt (lits ''Feeder'') (Seq (lits ''Feeder ID'') (Opt (lit CHR '':''))))
                (Star (Cls [Space])),
      grp = seqs [digit, digit, digit, digit, lit CHR ''-'', digit, digit],
      post = Eps\<rparr>"

text \<open>\<^verbatim>\<open>Length:?\s*([\d.]+)\s*(?:overhead miles|Overhead miles)\<close>\<close>

definition miles_pat :: pat where
  "miles_pat =
     \<lparr>pre = Seq (lits ''Length'') colon_blanks,
      grp = Plus (Cls [Digit, Lit CHR ''.'']),
      post = Seq (Star (Cls [Space])) (Alt (lits ''overhead miles'') (lits ''Overhead miles''))\<rparr>"

text \<open>\<^verbatim>\<open>Work Orders:?\s*(\d+)(?:\s*WO locations)?\<close>\<close>

definition work_orders_pat :: pat where
  "work_orders_pat =
     \<lparr>pre = Seq (lits ''Work Orders'') colon_blanks,
      grp = Plus digit,
      post = Opt (Seq (Star (Cls [Space])) (lits ''WO locations''))\<rparr>"

text \<open>\<^verbatim>\<open>Start Date:?\s*(\d{2}/\d{2}/(?:\d{2}|\d{4}))\<close> and the same for \<open>End Date\<close>.\<close>

definition date_grp :: rx where
  "date_grp =
     seqs [digit, digit, lit CHR ''/'', digit, digit, lit CHR ''/'',
           Alt (Seq digit digit) (seqs [digit, digit, digit, digit])]"

definition start_date_pat :: pat where
  "start_date_pat = \<lparr>pre = Seq (lits ''Start Date'') colon_blanks, grp = date_grp, post = Eps\<rparr>"

definition end_date_pat :: pat where
  "end_date_pat = \<lparr>pre = Seq (lits ''End Date'') colon_blanks, grp = date_grp, post = Eps\<rparr>"

text \<open>The dictionary \<open>patterns\<close>, in its insertion order (the order of the loop).\<close>

definition patterns :: "(string \<times> pat) list" where
  "patterns =
     [(''Task Order #'', task_order_pat),
      (''Total Amount'', total_amount_pat),
      (''Feeder ID'', feeder_id_pat),
      (''Feeder Total Miles'', miles_pat),
      (''# of Work Orders'', work_orders_pat),
      (''Task Order Start Date'', start_date_pat),
      (''Task Order End Date'', end_date_pat)]"


section \<open>Values, records and the log\<close>

text \<open>
  The values the program handles: strings, integers, floats and (in the store) time
  stamps. A float is represented by the rational number its literal denotes; the
  rounding to a binary double is not part of the model. A time stamp is its count of
  time units since the epoch.
\<close>

datatype cell = CStr string | CInt int | CFloat rat | CTime int

text \<open>A Python \<open>dict\<close> with its insertion order.\<close>

type_synonym dict = "(string \<times> cell) list"

definition dict_get :: "dict \<Rightarrow> string \<Rightarrow> cell option" where
  "dict_get d k = map_of d k"

fun dict_set :: "dict \<Rightarrow> string \<Rightarrow> cell \<Rightarrow> dict" where
  "dict_set [] k v = [(k, v)]"
| "dict_set ((k', v') # d) k v = (if k' = k then (k, v) # d else (k', v') # dict_set d k v)"

datatype level = INFO | WARNING | ERROR

text \<open>
  A log line: its level and the parts of its message, literal text (\<open>T\<close>) and
  interpolated values (\<open>V\<close>, with \<open>V None\<close> for Python's \<open>None\<close>). The text of a caught
  exception, which ends the error messages, is left out.
\<close>

datatype part = T string | V "cell option"

type_synonym log_entry = "level \<times> part list"

datatype error = ValueError | TypeError | KeyError | DecodeError | DateParseError


section \<open>Coercions\<close>

text \<open>
  \<open>float(s)\<close> and \<open>int(s)\<close> on what the patterns can capture (digits and dots, the commas
  already removed): \<open>float\<close> accepts \<open>digits\<close>, \<open>digits.\<close>, \<open>digits.digits\<close> and \<open>.digits\<close>;
  \<open>int\<close> accepts a non-empty run of digits. Everything else raises \<open>ValueError\<close>.
  Signs, exponents, underscores and the names \<open>inf\<close> and \<open>nan\<close> cannot be captured and
  are not modelled.
\<close>

definition py_float :: "string \<Rightarrow> rat option" where
  "py_float s =
     (let ip = takeWhile is_digit s; r = dropWhile is_digit s in
      case r of
        [] \<Rightarrow> if ip = [] then None else Some (of_nat (digits_val ip))
      | c # fp \<Rightarrow>
          if c = CHR ''.'' \<and> list_all is_digit fp \<and> (ip \<noteq> [] \<or> fp \<noteq> [])
          then Some (of_nat (digits_val ip) + of_nat (digits_val fp) / 10 ^ length fp)
          else None)"

definition py_int :: "string \<Rightarrow> int option" where
  "py_int s = (if s \<noteq> [] \<and> list_all is_digit s then Some (int (digits_val s)) else None)"

subsection \<open>Dates: \<open>datetime.strptime\<close> and \<open>strftime\<close>\<close>

record date =
  year :: nat
  month :: nat
  day :: nat

definition leap_year :: "nat \<Rightarrow> bool" where
  "leap_year y = (y mod 4 = 0 \<and> (y mod 100 \<noteq> 0 \<or> y mod 400 = 0))"

definition days_in_month :: "nat \<Rightarrow> nat \<Rightarrow> nat" where
  "days_in_month y m =
     (if m = 2 then (if leap_year y then 29 else 28)
      else if m \<in> {4, 6, 9, 11} then 30 else 31)"

text \<open>The range check of the \<open>datetime\<close> constructor.\<close>

definition valid_date :: "date \<Rightarrow> bool" where
  "valid_date d =
     (1 \<le> year d \<and> year d \<le> 9999 \<and> 1 \<le> month d \<and> month d \<le> 12 \<and>
      1 \<le> day d \<and> day d \<le> days_in_month (year d) (month d))"

definition one_of :: "string \<Rightarrow> rx" where
  "one_of s = Cls (map Lit s)"

text \<open>
  The regular expressions \<open>strptime\<close> builds for the directives:
  \<open>%m\<close> is \<^verbatim>\<open>1[0-2]|0[1-9]|[1-9]\<close>, \<open>%d\<close> is \<^verbatim>\<open>3[0-1]|[1-2]\d|0[1-9]|[1-9]| [1-9]\<close>,
  \<open>%y\<close> is \<^verbatim>\<open>\d\d\<close> and \<open>%Y\<close> is \<^verbatim>\<open>\d\d\d\d\<close>.
\<close>

definition month_rx :: rx where
  "month_rx =
     Alt (Seq (lit CHR ''1'') (one_of ''012''))
       (Alt (Seq (lit CHR ''0'') (one_of ''123456789'')) (one_of ''123456789''))"

definition day_rx :: rx where
  "day_rx =
     Alt (Seq (lit CHR ''3'') (one_of ''01''))
       (Alt (Seq (one_of ''12'') digit)
         (Alt (Seq (lit CHR ''0'') (one_of ''123456789''))
           (Alt (one_of ''123456789'') (Seq (lit CHR '' '') (one_of ''123456789'')))))"

datatype year_fmt = Y2 | Y4

definition year_rx :: "year_fmt \<Rightarrow> rx" where
  "year_rx f = (case f of Y2 \<Rightarrow> Seq digit digit | Y4 \<Rightarrow> seqs [digit, digit, digit, digit])"

text \<open>
  \<open>datetime.strptime(s, '%m/%d/%y')\<close> (format \<open>Y2\<close>) and \<open>datetime.strptime(s, '%m/%d/%Y')\<close>
  (format \<open>Y4\<close>); \<open>None\<close> stands for \<open>ValueError\<close>: the string does not match the format,
  unconverted data remains, or the day or the year is out of range. A two-digit year up
  to 68 is in the century 2000, from 69 on in the century 1900.
\<close>

definition strptime :: "string \<Rightarrow> year_fmt \<Rightarrow> date option" where
  "strptime s f =
     (case groups [month_rx, lit CHR ''/'', day_rx, lit CHR ''/'', year_rx f] s of
        [] \<Rightarrow> None
      | (gs, u) # _ \<Rightarrow>
          if u \<noteq> [] then None
          else
            let yy = digits_val (gs ! 4);
                d = \<lparr>year = (case f of Y2 \<Rightarrow> (if yy \<le> 68 then yy + 2000 else yy + 1900) | Y4 \<Rightarrow> yy),
                     month = digits_val (gs ! 0),
                     day = digits_val (gs ! 2)\<rparr>
            in if valid_date d then Some d else None)"

text \<open>\<open>date_obj.strftime('%m/%d/%Y')\<close>, the year written with four digits.\<close>

definition strftime :: "date \<Rightarrow> string" where
  "strftime d = pad2 (month d) @ ''/'' @ pad2 (day d) @ ''/'' @ pad4 (year d)"

text \<open>The body of the \<open>try\<close> of the date branch, up to \<open>strptime\<close>.\<close>

definition parse_date :: "string \<Rightarrow> date option" where
  "parse_date v = (if length (last_token v) = 2 then strptime v Y2 else strptime v Y4)"

text \<open>
  The chain of conversions applied to a matched value: the converted value and what
  is logged on the way, or the exception that leaves the loop.
\<close>

definition convert_value :: "string \<Rightarrow> string \<Rightarrow> error + (cell \<times> log_entry list)" where
  "convert_value field v =
     (if field = ''Total Amount'' then
        (case py_float (filter (\<lambda>c. c \<noteq> CHR '','') v) of
           None \<Rightarrow> Inl ValueError
         | Some x \<Rightarrow> Inr (CFloat x, []))
      else if field = ''Feeder Total Miles'' then
        (case py_float v of None \<Rightarrow> Inl ValueError | Some x \<Rightarrow> Inr (CFloat x, []))
      else if field = ''# of Work Orders'' then
        (case py_int v of None \<Rightarrow> Inl ValueError | Some n \<Rightarrow> Inr (CInt n, []))
      else if contains ''Date'' field then
        (case parse_date v of
           Some d \<Rightarrow> Inr (CStr (strftime d), [])
         | None \<Rightarrow> Inr (CStr v, [(ERROR, [T ''Error parsing date '', V (Some (CStr v)), T '': ''])]))
      else Inr (CStr v, []))"


section \<open>The extractor\<close>

fun contractor_loop :: "pat list \<Rightarrow> string \<Rightarrow> string option" where
  "contractor_loop [] text = None"
| "contractor_loop (p # ps) text =
     (case re_search p text of
        Some g \<Rightarrow> Some (strip g)
      | None \<Rightarrow> contractor_loop ps text)"

definition extract_contractor_name :: "string \<Rightarrow> string option" where
  "extract_contractor_name text = contractor_loop contractor_patterns text"

text \<open>One round of the loop over \<open>patterns.items()\<close>.\<close>

definition extract_field ::
  "string \<Rightarrow> string \<times> pat \<Rightarrow> dict \<Rightarrow> log_entry list \<times> (error + dict)" where
  "extract_field text fp data =
     (case re_search (snd fp) text of
        None \<Rightarrow> ([(WARNING, [T (''Could not find '' @ fst fp @ '' in PDF'')])], Inr data)
      | Some g \<Rightarrow>
          (case convert_value (fst fp) (strip g) of
             Inl e \<Rightarrow> ([], Inl e)
           | Inr (v, lg) \<Rightarrow>
               (lg @ [(INFO, [T (''Extracted '' @ fst fp @ '': ''), V (Some v)])],
                Inr (dict_set data (fst fp) v))))"

fun fields_loop ::
  "string \<Rightarrow> (string \<times> pat) list \<Rightarrow> dict \<Rightarrow> log_entry list \<times> (error + dict)" where
  "fields_loop text [] data = ([], Inr data)"
| "fields_loop text (fp # fps) data =
     (case extract_field text fp data of
        (lg, Inl e) \<Rightarrow> (lg, Inl e)
      | (lg, Inr data') \<Rightarrow>
          (case fields_loop text fps data' of (lg', r) \<Rightarrow> (lg @ lg', r)))"

text \<open>
  What \<open>pdfplumber\<close> gives for the path: opening the file or taking its first page
  raises (\<open>Unreadable\<close>), or the first page yields its text, \<open>None\<close> when it has none to
  extract.
\<close>

datatype pdf = Unreadable | Page "string option"

text \<open>
  \<open>extract_pdf_data\<close>: the log it writes and the record it returns, \<open>None\<close> after the
  handler of the enclosing \<open>try\<close> has caught an exception.
\<close>

definition extract_pdf_data :: "pdf \<Rightarrow> log_entry list \<times> dict option" where
  "extract_pdf_data doc =
     (case doc of
        Unreadable \<Rightarrow> ([(ERROR, [T ''Error processing PDF: ''])], None)
      | Page None \<Rightarrow>
          ([(INFO, [T ''Extracted text:'']), (INFO, [V None]),
            (ERROR, [T ''Error processing PDF: ''])], None)
      | Page (Some text) \<Rightarrow>
          (let lg0 = [(INFO, [T ''Extracted text:'']), (INFO, [V (Some (CStr text))])];
               c = (case extract_contractor_name text of
                      None \<Rightarrow> ([(WARNING, [T ''Could not find contractor name in PDF''])], [])
                    | Some name \<Rightarrow>
                        if name \<noteq> [] then
                          ([(INFO, [T ''Extracted Contractor: '', V (Some (CStr name))])],
                           [(''Contractor'', CStr name)])
                        else ([(WARNING, [T ''Could not find contractor name in PDF''])], []))
           in case fields_loop text patterns (snd c) of
                (lg, Inl e) \<Rightarrow>
                  (lg0 @ fst c @ lg @ [(ERROR, [T ''Error processing PDF: ''])], None)
              | (lg, Inr data) \<Rightarrow> (lg0 @ fst c @ lg, Some data)))"


section \<open>The store\<close>

text \<open>
  A data frame has its columns, in order, and its rows; a row maps a column name to
  the cell it holds, and a missing cell (\<open>NaN\<close>, \<open>NaT\<close>) is an absent key. The workbook is
  given by the frame that \<open>to_excel\<close> wrote into it; \<open>None\<close> is the path that does not
  exist yet.
\<close>

type_synonym row = "string \<rightharpoonup> cell"

record frame =
  columns :: "string list"
  rows :: "row list"

text \<open>
  What the program leaves to \<open>pandas\<close>: \<open>read_excel f\<close> is the frame that \<open>pd.read_excel\<close>
  returns for the workbook \<open>to_excel\<close> wrote from \<open>f\<close> (it types the cells anew),
  \<open>to_datetime_obj\<close> is \<open>pd.to_datetime\<close> on a cell that is not yet a time stamp (an
  exception, \<open>NaT\<close>, or a time stamp), \<open>str_obj\<close> is \<open>astype(str)\<close> on a cell that is not a
  string.
\<close>

record pandas =
  read_excel :: "frame \<Rightarrow> frame"
  to_datetime_obj :: "cell \<Rightarrow> error + int option"
  str_obj :: "cell \<Rightarrow> string"

definition init_columns :: "string list" where
  "init_columns =
     [''Task Order #'', ''Contractor'', ''Total Amount'', ''Feeder ID'',
      ''Feeder Total Miles'', ''# of Work Orders'',
      ''Task Order Start Date'', ''Task Order End Date'']"

text \<open>Truth value of \<open>data.get('Task Order #')\<close> in the condition.\<close>

fun truthy :: "cell option \<Rightarrow> bool" where
  "truthy None = False"
| "truthy (Some (CStr s)) = (s \<noteq> [])"
| "truthy (Some (CInt n)) = (n \<noteq> 0)"
| "truthy (Some (CFloat x)) = (x \<noteq> 0)"
| "truthy (Some (CTime t)) = True"

fun astype_str :: "pandas \<Rightarrow> cell option \<Rightarrow> string" where
  "astype_str lib None = ''nan''"
| "astype_str lib (Some (CStr s)) = s"
| "astype_str lib (Some c) = str_obj lib c"

text \<open>\<open>df['Task Order #'].astype(str).eq(task_order).any()\<close>: a string equals only a string.\<close>

definition key_exists :: "pandas \<Rightarrow> frame \<Rightarrow> cell \<Rightarrow> bool" where
  "key_exists lib df task_order =
     list_ex (\<lambda>r. case task_order of
                     CStr t \<Rightarrow> astype_str lib (r ''Task Order #'') = t
                   | _ \<Rightarrow> False) (rows df)"

text \<open>
  The column types of a frame: a column of numbers that has a missing cell or a float
  is a column of floats, and its integers are floats too (\<open>12\<close> is \<open>12.0\<close> there).
\<close>

fun numeric :: "cell option \<Rightarrow> bool" where
  "numeric None = True"
| "numeric (Some (CInt n)) = True"
| "numeric (Some (CFloat x)) = True"
| "numeric (Some c) = False"

fun floating :: "cell option \<Rightarrow> bool" where
  "floating None = True"
| "floating (Some (CFloat x)) = True"
| "floating (Some c) = False"

fun as_float :: "cell option \<Rightarrow> cell option" where
  "as_float (Some (CInt n)) = Some (CFloat (of_int n))"
| "as_float c = c"

definition float_column :: "cell option list \<Rightarrow> bool" where
  "float_column cs = (list_all numeric cs \<and> list_ex floating cs)"

definition promote :: "string list \<Rightarrow> row list \<Rightarrow> row list" where
  "promote cols rs =
     map (\<lambda>r k. if k \<in> set cols \<and> float_column (map (\<lambda>r'. r' k) rs) then as_float (r k)
                 else r k) rs"

text \<open>\<open>pd.concat([df, pd.DataFrame([data])], ignore_index=True)\<close>: the columns of \<open>df\<close>,
  then the new keys of \<open>data\<close>; the new row last; the columns typed as above.\<close>

definition pd_concat :: "frame \<Rightarrow> dict \<Rightarrow> frame" where
  "pd_concat df data =
     (let cols = columns df @ filter (\<lambda>k. k \<notin> set (columns df)) (map fst data)
      in \<lparr>columns = cols, rows = promote cols (rows df @ [map_of data])\<rparr>)"

text \<open>\<open>pd.to_datetime\<close> on the cells of the start-date column, top to bottom.\<close>

fun to_datetime_cell :: "pandas \<Rightarrow> cell option \<Rightarrow> error + cell option" where
  "to_datetime_cell lib None = Inr None"
| "to_datetime_cell lib (Some (CTime t)) = Inr (Some (CTime t))"
| "to_datetime_cell lib (Some c) =
     (case to_datetime_obj lib c of
        Inl e \<Rightarrow> Inl e
      | Inr None \<Rightarrow> Inr None
      | Inr (Some t) \<Rightarrow> Inr (Some (CTime t)))"

fun to_datetime_rows :: "pandas \<Rightarrow> row list \<Rightarrow> error + row list" where
  "to_datetime_rows lib [] = Inr []"
| "to_datetime_rows lib (r # rs) =
     (case to_datetime_cell lib (r ''Task Order Start Date'') of
        Inl e \<Rightarrow> Inl e
      | Inr c \<Rightarrow>
          (case to_datetime_rows lib rs of
             Inl e \<Rightarrow> Inl e
           | Inr rs' \<Rightarrow> Inr (r(''Task Order Start Date'' := c) # rs')))"

text \<open>
  \<open>df.sort_values('Task Order Start Date', ascending=False)\<close>: later dates first, rows
  without a date last. \<open>starts_before a b\<close> says that row \<open>a\<close> may stand before row \<open>b\<close>.
  Rows of equal date keep their order here; no theorem below depends on that.
\<close>

definition start_of :: "row \<Rightarrow> int option" where
  "start_of r = (case r ''Task Order Start Date'' of Some (CTime t) \<Rightarrow> Some t | _ \<Rightarrow> None)"

definition starts_before :: "row \<Rightarrow> row \<Rightarrow> bool" where
  "starts_before a b =
     (case start_of b of
        None \<Rightarrow> True
      | Some y \<Rightarrow> (case start_of a of None \<Rightarrow> False | Some x \<Rightarrow> y \<le> x))"

fun insert_row :: "row \<Rightarrow> row list \<Rightarrow> row list" where
  "insert_row r [] = [r]"
| "insert_row r (x # xs) = (if starts_before r x then r # x # xs else x # insert_row r xs)"

definition sort_values :: "row list \<Rightarrow> row list" where
  "sort_values rs = foldr insert_row rs []"

text \<open>
  \<open>update_excel(data, excel_path)\<close>: the workbook after the call and the line it logs.
  The frame \<open>df\<close> is new when the path does not exist and is read from the workbook
  otherwise. Every exception is caught by the handler, which leaves the workbook as it
  was.
\<close>

definition update_excel :: "pandas \<Rightarrow> dict \<Rightarrow> frame option \<Rightarrow> frame option \<times> log_entry" where
  "update_excel lib data file =
     (let df = (case file of
                  None \<Rightarrow> \<lparr>columns = init_columns, rows = []\<rparr>
                | Some f \<Rightarrow> read_excel lib f);
          task_order = dict_get data ''Task Order #''
      in if \<not> truthy task_order then
           (file, (INFO, [T ''Task order '', V task_order, T '' already exists in Excel file'']))
         else if ''Task Order #'' \<notin> set (columns df) then
           (file, (ERROR, [T ''Error updating Excel file: '']))
         else if key_exists lib df (the task_order) then
           (file, (INFO, [T ''Task order '', V task_order, T '' already exists in Excel file'']))
         else
           (let df1 = pd_concat df data in
            if ''Task Order Start Date'' \<notin> set (columns df1) then
              (file, (ERROR, [T ''Error updating Excel file: '']))
            else
              (case to_datetime_rows lib (rows df1) of
                 Inl e \<Rightarrow> (file, (ERROR, [T ''Error updating Excel file: '']))
               | Inr rs \<Rightarrow>
                   (Some \<lparr>columns = columns df1, rows = sort_values rs\<rparr>,
                    (INFO, [T ''Successfully updated Excel file with task order: '', V task_order])))))"


section \<open>Notions of the specification\<close>



text \<open>The column order the specification lists in its data model.\<close>

definition spec_columns :: "string list" where
  "spec_columns =
     [''Contractor'', ''Task Order #'', ''Total Amount'', ''Feeder ID'',
      ''Feeder Total Miles'', ''# of Work Orders'',
      ''Task Order Start Date'', ''Task Order End Date'']"


section \<open>A library instance for the examples\<close>

text \<open>
  The theorems about \<^const>\<open>update_excel\<close> hold for every \<^typ>\<open>pandas\<close>. The examples run
  with the instance below.
  \<^item> Reading a workbook: a text cell that spells one of the default missing values
    (\<open>NA\<close>, \<open>N/A\<close>, \<open>nan\<close>, \<open>NULL\<close>, \<dots>) is read as missing; a column whose cells all are
    numbers or numeric text is read as numbers (\<open>00123\<close> as \<open>123\<close>), as floats when it has
    a missing cell or a float; every other cell is read as written. Numeric text is
    recognised as far as \<^const>\<open>py_int\<close> and \<^const>\<open>py_float\<close> go.
  \<^item> \<open>pd.to_datetime\<close>: a string is read as a month-first date with a four-digit year,
    the spelling the extractor writes, and becomes the nanoseconds from the epoch to its
    midnight when that fits into 64 bits; a number is a count of nanoseconds.
  \<^item> \<open>astype(str)\<close>: an integer prints in decimal. The printed form of a float or a time
    stamp is not modelled: the instance prints the empty string, which no Task Order #
    of a merge equals.
\<close>

definition na_values :: "string list" where
  "na_values =
     [[], ''#N/A'', ''#N/A N/A'', ''#NA'', ''-1.#IND'', ''-1.#QNAN'', ''-NaN'', ''-nan'',
      ''1.#IND'', ''1.#QNAN'', ''<NA>'', ''N/A'', ''NA'', ''NULL'', ''NaN'', ''None'', ''n/a'',
      ''nan'', ''null'']"

fun na_cell :: "cell option \<Rightarrow> cell option" where
  "na_cell (Some (CStr s)) = (if s \<in> set na_values then None else Some (CStr s))"
| "na_cell c = c"

fun number_like :: "cell option \<Rightarrow> bool" where
  "number_like None = True"
| "number_like (Some (CInt n)) = True"
| "number_like (Some (CFloat x)) = True"
| "number_like (Some (CStr s)) = (py_int s \<noteq> None \<or> py_float s \<noteq> None)"
| "number_like (Some (CTime t)) = False"

fun to_number :: "cell option \<Rightarrow> cell option" where
  "to_number (Some (CStr s)) =
     (case py_int s of
        Some n \<Rightarrow> Some (CInt n)
      | None \<Rightarrow> (case py_float s of Some x \<Rightarrow> Some (CFloat x) | None \<Rightarrow> Some (CStr s)))"
| "to_number c = c"

definition read_column :: "cell option list \<Rightarrow> cell option \<Rightarrow> cell option" where
  "read_column cs c =
     (if list_all number_like (map na_cell cs) then
        (if list_ex floating (map (\<lambda>x. to_number (na_cell x)) cs)
         then as_float (to_number (na_cell c)) else to_number (na_cell c))
      else na_cell c)"

definition read_excel_mdy :: "frame \<Rightarrow> frame" where
  "read_excel_mdy f =
     \<lparr>columns = columns f,
      rows = map (\<lambda>r k. if k \<in> set (columns f) then read_column (map (\<lambda>r'. r' k) (rows f)) (r k)
                         else None) (rows f)\<rparr>"

definition days_from_civil :: "date \<Rightarrow> int" where
  "days_from_civil d =
     (let y = int (year d) - (if month d \<le> 2 then 1 else 0);
          era = y div 400;
          yoe = y - era * 400;
          mp = (if month d > 2 then int (month d) - 3 else int (month d) + 9);
          doy = (153 * mp + 2) div 5 + int (day d) - 1;
          doe = yoe * 365 + yoe div 4 - yoe div 100 + doy
      in era * 146097 + doe - 719468)"

definition midnight_ns :: "date \<Rightarrow> int" where
  "midnight_ns d = days_from_civil d * 86400 * 1000000000"

fun show_nat :: "nat \<Rightarrow> string" where
  "show_nat n = (if n < 10 then [digit_char n] else show_nat (n div 10) @ [digit_char n])"

definition show_int :: "int \<Rightarrow> string" where
  "show_int i = (if i < 0 then CHR ''-'' # show_nat (nat (- i)) else show_nat (nat i))"

definition pandas_mdy :: pandas where
  "pandas_mdy =
     \<lparr>read_excel = read_excel_mdy,
      to_datetime_obj =
        (\<lambda>c. case c of
                CStr s \<Rightarrow>
                  (case strptime s Y4 of
                     None \<Rightarrow> Inl DateParseError
                   | Some d \<Rightarrow>
                       if - (2 ^ 63) < midnight_ns d \<and> midnight_ns d < 2 ^ 63
                       then Inr (Some (midnight_ns d)) else Inl DateParseError)
              | CInt n \<Rightarrow> Inr (Some n)
              | CFloat x \<Rightarrow> Inr (Some \<lfloor>x\<rfloor>)
              | CTime t \<Rightarrow> Inr (Some t)),
      str_obj = (\<lambda>c. case c of CInt n \<Rightarrow> show_int n | _ \<Rightarrow> [])\<rparr>"


section \<open>Facts about the matcher\<close>

lemma star_iter_Cls:
  "t \<in> set (star_iter (rmatch (Cls as)) n s) \<Longrightarrow> \<exists>w. s = w @ t \<and> list_all (cls_ok as) w"
proof (induction n arbitrary: s)
  case 0
  then show ?case by simp
next
  case (Suc n)
  from Suc.prems consider "t = s"
    | u where "u \<in> set (rmatch (Cls as) s)" "t \<in> set (star_iter (rmatch (Cls as)) n u)"
    by (auto simp del: rmatch.simps)
  then show ?case
  proof cases
    case 1
    then show ?thesis by simp
  next
    case 2
    from 2(1) obtain x where x: "s = x # u" "cls_ok as x"
      by (auto split: list.splits if_splits)
    from Suc.IH [OF 2(2)] obtain w where "u = w @ t" "list_all (cls_ok as) w" by blast
    with x have "s = (x # w) @ t \<and> list_all (cls_ok as) (x # w)" by simp
    then show ?thesis by blast
  qed
qed

lemma rmatch_Star_Cls:
  assumes "t \<in> set (rmatch (Star (Cls as)) s)"
  shows "\<exists>w. s = w @ t \<and> list_all (cls_ok as) w"
proof -
  have "rmatch (Star (Cls as)) s = star_iter (rmatch (Cls as)) (length s) s"
    by (rule rmatch.simps)
  with assms show ?thesis by (simp only: star_iter_Cls)
qed

lemma rmatch_Cls_iff: "t \<in> set (rmatch (Cls as) s) \<longleftrightarrow> (\<exists>x. s = x # t \<and> cls_ok as x)"
  by (auto split: list.splits)

lemma groups3:
  "(gs, u) \<in> set (groups [a, b, c] s) \<Longrightarrow>
   \<exists>t1 t2. t1 \<in> set (rmatch a s) \<and> t2 \<in> set (rmatch b t1) \<and> u \<in> set (rmatch c t2) \<and>
     gs ! 1 = take (length t1 - length t2) t1"
  by fastforce

lemma match_at_Some:
  assumes "match_at p s = Some g"
  shows "\<exists>t1 t2. t1 \<in> set (rmatch (pre p) s) \<and> t2 \<in> set (rmatch (grp p) t1) \<and>
           g = take (length t1 - length t2) t1"
proof -
  from assms obtain gs u rest where
    h: "groups [pre p, grp p, post p] s = (gs, u) # rest" "g = gs ! 1"
    by (auto simp: match_at_def split: list.splits)
  then have "(gs, u) \<in> set (groups [pre p, grp p, post p] s)" by simp
  from groups3 [OF this] h(2) show ?thesis by metis
qed

lemma re_search_Some: "re_search p s = Some g \<Longrightarrow> \<exists>s'. match_at p s' = Some g"
  by (induction s) (auto split: option.splits)

lemma re_search_grp:
  assumes "re_search p s = Some g"
  shows "\<exists>t1 t2. t2 \<in> set (rmatch (grp p) t1) \<and> g = take (length t1 - length t2) t1"
  using re_search_Some [OF assms] match_at_Some by blast

lemma lower_dot: "lower x = lower CHR ''.'' \<longleftrightarrow> x = CHR ''.''"
  by (auto simp: lower_def split: option.splits if_splits)

lemma cls_digit_comma: "cls_ok [Digit, Lit CHR '',''] x \<longleftrightarrow> is_digit x \<or> x = CHR '',''"
  by (auto simp: cls_ok_def lower_def is_digit_def split: option.splits if_splits)

lemma cls_digit: "cls_ok [Digit] x \<longleftrightarrow> is_digit x"
  by (simp add: cls_ok_def)

lemma cls_dot: "cls_ok [Lit CHR ''.''] x \<longleftrightarrow> x = CHR ''.''"
  by (simp add: cls_ok_def lower_dot)

lemma dropWhile_hd: "xs \<noteq> [] \<Longrightarrow> \<not> P (hd xs) \<Longrightarrow> dropWhile P xs = xs"
  by (cases xs) simp_all

lemma strip_id: "s \<noteq> [] \<Longrightarrow> \<not> is_space (hd s) \<Longrightarrow> \<not> is_space (last s) \<Longrightarrow> strip s = s"
  unfolding strip_def by (simp add: dropWhile_hd hd_rev)

lemma digit_not_space: "is_digit x \<Longrightarrow> \<not> is_space x"
  by (auto simp: is_digit_def is_space_def)


section \<open>The amount always converts\<close>

lemma amount_grp_shape:
  assumes "t \<in> set (rmatch amount_grp s)"
  shows "\<exists>w a b. s = w @ CHR ''.'' # a # b # t \<and> w \<noteq> [] \<and>
           list_all (\<lambda>x. is_digit x \<or> x = CHR '','') w \<and> is_digit a \<and> is_digit b"
proof -
  from assms obtain u1 u2 u3 u4 where
    u1: "u1 \<in> set (rmatch (Cls [Digit, Lit CHR '','']) s)" and
    u2: "u2 \<in> set (rmatch (Star (Cls [Digit, Lit CHR '',''])) u1)" and
    u3: "u3 \<in> set (rmatch (lit CHR ''.'') u2)" and
    u4: "u4 \<in> set (rmatch digit u3)" and
    t: "t \<in> set (rmatch digit u4)"
    unfolding amount_grp_def seqs_def Plus_def by auto
  from u1 obtain x where x: "s = x # u1" "is_digit x \<or> x = CHR '',''"
    unfolding rmatch_Cls_iff cls_digit_comma by blast
  from rmatch_Star_Cls [OF u2] obtain w where
    w: "u1 = w @ u2" "list_all (cls_ok [Digit, Lit CHR '','']) w"
    by blast
  from u3 have d: "u2 = CHR ''.'' # u3"
    unfolding lit_def rmatch_Cls_iff cls_dot by blast
  from u4 obtain a where a: "u3 = a # u4" "is_digit a"
    unfolding digit_def rmatch_Cls_iff cls_digit by blast
  from t obtain b where b: "u4 = b # t" "is_digit b"
    unfolding digit_def rmatch_Cls_iff cls_digit by blast
  have "list_all (\<lambda>x. is_digit x \<or> x = CHR '','') (x # w)"
    using w(2) x(2) by (simp add: list_all_iff cls_digit_comma)
  moreover have "s = (x # w) @ CHR ''.'' # a # b # t"
    using x w d a b by simp
  ultimately show ?thesis using a(2) b(2) by blast
qed

lemma py_float_point:
  assumes "list_all is_digit ip" "list_all is_digit fp" "fp \<noteq> []"
  shows "py_float (ip @ CHR ''.'' # fp) =
           Some (of_nat (digits_val ip) + of_nat (digits_val fp) / 10 ^ length fp)"
proof -
  have nd: "\<not> is_digit CHR ''.''" by (simp add: is_digit_def)
  have "takeWhile is_digit (ip @ CHR ''.'' # fp) = ip"
    using assms(1) nd by (simp add: list_all_iff takeWhile_append2)
  moreover have "dropWhile is_digit (ip @ CHR ''.'' # fp) = CHR ''.'' # fp"
    using assms(1) nd by (simp add: list_all_iff dropWhile_append2)
  ultimately show ?thesis using assms(2,3) by (simp add: py_float_def)
qed

lemma amount_capture:
  assumes "re_search total_amount_pat s = Some g"
  shows "strip g = g \<and> (\<exists>x. py_float (filter (\<lambda>c. c \<noteq> CHR '','') g) = Some x)"
proof -
  from re_search_grp [OF assms] obtain t1 t2 where
    m: "t2 \<in> set (rmatch amount_grp t1)" and g: "g = take (length t1 - length t2) t1"
    by (auto simp: total_amount_pat_def)
  from amount_grp_shape [OF m] obtain w a b where
    sh: "t1 = w @ CHR ''.'' # a # b # t2" "w \<noteq> []"
        "list_all (\<lambda>x. is_digit x \<or> x = CHR '','') w" "is_digit a" "is_digit b"
    by blast
  have gv: "g = w @ [CHR ''.'', a, b]" using g sh(1) by simp
  have "is_digit (hd w) \<or> hd w = CHR '',''" using sh(2,3) by (cases w) auto
  then have "\<not> is_space (hd w)"
    by (elim disjE) (simp add: digit_not_space, simp add: is_space_def)
  then have "\<not> is_space (hd g)" using gv sh(2) by simp
  moreover have "\<not> is_space (last g)" using gv sh(5) by (simp add: digit_not_space)
  ultimately have st: "strip g = g" using gv by (simp add: strip_id)
  have fl: "filter (\<lambda>c. c \<noteq> CHR '','') g = filter (\<lambda>c. c \<noteq> CHR '','') w @ CHR ''.'' # [a, b]"
    using gv sh(4,5) by (auto simp: is_digit_def)
  have "list_all is_digit (filter (\<lambda>c. c \<noteq> CHR '','') w)"
    using sh(3) by (auto simp: list_all_iff)
  from py_float_point [OF this, of "[a, b]"] sh(4,5)
  have "py_float (filter (\<lambda>c. c \<noteq> CHR '','') g) =
          Some (of_nat (digits_val (filter (\<lambda>c. c \<noteq> CHR '','') w)) +
                of_nat (digits_val [a, b]) / 10 ^ 2)"
    by (simp add: fl)
  with st show ?thesis by simp
qed

text \<open>
  Claim C10. Whenever the pattern of \<open>Total Amount\<close> matches somewhere in the text, the
  captured string, stripped and freed of its commas, is a literal that \<open>float\<close> accepts:
  the conversion yields a float and never raises \<open>ValueError\<close>.
\<close>

theorem total_amount_coercion_succeeds:
  assumes "re_search total_amount_pat s = Some g"
  shows "\<exists>x. py_float (filter (\<lambda>c. c \<noteq> CHR '','') (strip g)) = Some x \<and>
             convert_value ''Total Amount'' (strip g) = Inr (CFloat x, [])"
proof -
  from amount_capture [OF assms] obtain x where
    "strip g = g" "py_float (filter (\<lambda>c. c \<noteq> CHR '','') g) = Some x"
    by blast
  then show ?thesis by (simp add: convert_value_def)
qed

theorem total_amount_coercion_succeeds_witness:
  "re_search total_amount_pat ''Task Order Total Amount: $12,500.00'' = Some ''12,500.00'' \<and>
   (\<exists>x. py_float (filter (\<lambda>c. c \<noteq> CHR '','') (strip ''12,500.00'')) = Some x \<and>
        convert_value ''Total Amount'' (strip ''12,500.00'') = Inr (CFloat x, []))"
proof -
  have h: "re_search total_amount_pat ''Task Order Total Amount: $12,500.00'' = Some ''12,500.00''"
    by code_simp
  show ?thesis using h total_amount_coercion_succeeds [OF h] by blast
qed

section \<open>Facts about the extractor\<close>

lemma dict_get_set: "dict_get (dict_set d k v) k' = (if k' = k then Some v else dict_get d k')"
  by (induction d) (auto simp: dict_get_def)

lemma extract_field_cases:
  "extract_field s fp d = (lg, r) \<Longrightarrow>
     r = Inr d \<or> (\<exists>e. r = Inl e) \<or> (\<exists>v. r = Inr (dict_set d (fst fp) v))"
  by (auto simp: extract_field_def split: option.splits sum.splits prod.splits)

lemma extract_field_other:
  assumes "extract_field s fp d = (lg, Inr d')" "k \<noteq> fst fp"
  shows "dict_get d' k = dict_get d k"
  using extract_field_cases [OF assms(1)] assms(2) by (auto simp: dict_get_set)

lemma fields_loop_other:
  "fields_loop s fps d = (lg, Inr d') \<Longrightarrow> k \<notin> fst ` set fps \<Longrightarrow> dict_get d' k = dict_get d k"
proof (induction fps arbitrary: d lg)
  case Nil
  then show ?case by simp
next
  case (Cons fp fps)
  from Cons.prems(1) obtain l1 d1 l2 where
    a: "extract_field s fp d = (l1, Inr d1)" and b: "fields_loop s fps d1 = (l2, Inr d')"
    by (auto split: prod.splits sum.splits)
  from Cons.prems(2) have k: "k \<noteq> fst fp" "k \<notin> fst ` set fps" by auto
  from Cons.IH [OF b k(2)] extract_field_other [OF a k(1)] show ?case by simp
qed

lemma contractor_loop_Some:
  "contractor_loop ps s = Some n \<longleftrightarrow>
     (\<exists>i<length ps. (\<forall>j<i. re_search (ps ! j) s = None) \<and>
        (\<exists>g. re_search (ps ! i) s = Some g \<and> n = strip g))"
proof (induction ps)
  case Nil
  then show ?case by simp
next
  case (Cons p ps)
  show ?case
  proof (cases "re_search p s")
    case None
    have "(\<exists>i<length (p # ps). (\<forall>j<i. re_search ((p # ps) ! j) s = None) \<and>
             (\<exists>g. re_search ((p # ps) ! i) s = Some g \<and> n = strip g)) \<longleftrightarrow>
          (\<exists>i<length ps. (\<forall>j<i. re_search (ps ! j) s = None) \<and>
             (\<exists>g. re_search (ps ! i) s = Some g \<and> n = strip g))" (is "?L \<longleftrightarrow> ?R")
    proof
      assume ?L
      then obtain i g where i: "i < length (p # ps)" "\<forall>j<i. re_search ((p # ps) ! j) s = None"
        "re_search ((p # ps) ! i) s = Some g" "n = strip g" by blast
      from i(3) None obtain i' where i': "i = Suc i'" by (cases i) auto
      have "\<forall>j<i'. re_search (ps ! j) s = None"
      proof (intro allI impI)
        fix j assume "j < i'"
        then have "Suc j < i" using i' by simp
        with i(2) have "re_search ((p # ps) ! Suc j) s = None" by blast
        then show "re_search (ps ! j) s = None" by simp
      qed
      with i i' show ?R by auto
    next
      assume ?R
      then obtain i g where i: "i < length ps" "\<forall>j<i. re_search (ps ! j) s = None"
        "re_search (ps ! i) s = Some g" "n = strip g" by blast
      have "\<forall>j<Suc i. re_search ((p # ps) ! j) s = None"
      proof (intro allI impI)
        fix j assume "j < Suc i"
        then show "re_search ((p # ps) ! j) s = None"
          using None i(2) by (cases j) auto
      qed
      with i have "Suc i < length (p # ps) \<and> (\<forall>j<Suc i. re_search ((p # ps) ! j) s = None) \<and>
        (\<exists>g. re_search ((p # ps) ! Suc i) s = Some g \<and> n = strip g)" by auto
      then show ?L by blast
    qed
    with None Cons.IH show ?thesis by simp
  next
    case (Some g)
    have "(\<exists>i<length (p # ps). (\<forall>j<i. re_search ((p # ps) ! j) s = None) \<and>
             (\<exists>g. re_search ((p # ps) ! i) s = Some g \<and> n = strip g)) \<longleftrightarrow> n = strip g"
      (is "?L \<longleftrightarrow> _")
    proof
      assume ?L
      then obtain i g' where i: "i < length (p # ps)" "\<forall>j<i. re_search ((p # ps) ! j) s = None"
        "re_search ((p # ps) ! i) s = Some g'" "n = strip g'" by blast
      have "i = 0"
      proof (rule ccontr)
        assume "i \<noteq> 0"
        then have "0 < i" by simp
        with i(2) have "re_search ((p # ps) ! 0) s = None" by blast
        with Some show False by simp
      qed
      with i(3,4) Some show "n = strip g" by simp
    next
      assume "n = strip g"
      with Some have "0 < length (p # ps) \<and> (\<forall>j<0. re_search ((p # ps) ! j) s = None) \<and>
        (\<exists>g. re_search ((p # ps) ! 0) s = Some g \<and> n = strip g)" by simp
      then show ?L by blast
    qed
    with Some show ?thesis by auto
  qed
qed

lemma contractor_loop_None:
  "(\<forall>p \<in> set ps. re_search p s = None) \<Longrightarrow> contractor_loop ps s = None"
  by (induction ps) auto

lemma patterns_no_contractor: "''Contractor'' \<notin> fst ` set patterns"
  by (simp add: patterns_def)


lemma star_iter_suffix:
  assumes "\<And>s t. t \<in> set (step s) \<Longrightarrow> \<exists>w. s = w @ t"
  shows "t \<in> set (star_iter step n s) \<Longrightarrow> \<exists>w. s = w @ t"
proof (induction n arbitrary: s)
  case 0
  then show ?case by simp
next
  case (Suc n)
  from Suc.prems consider "t = s"
    | u where "u \<in> set (step s)" "t \<in> set (star_iter step n u)"
    by auto
  then show ?case
  proof cases
    case 1
    then show ?thesis by simp
  next
    case 2
    from assms [OF 2(1)] obtain w1 where "s = w1 @ u" by blast
    moreover from Suc.IH [OF 2(2)] obtain w2 where "u = w2 @ t" by blast
    ultimately have "s = (w1 @ w2) @ t" by simp
    then show ?thesis by blast
  qed
qed

lemma rmatch_suffix: "t \<in> set (rmatch r s) \<Longrightarrow> \<exists>w. s = w @ t"
proof (induction r arbitrary: s t)
  case Eps
  then show ?case by simp
next
  case (Cls as)
  then show ?case by (auto split: list.splits if_splits)
next
  case (Seq a b)
  from Seq.prems obtain u where u: "u \<in> set (rmatch a s)" "t \<in> set (rmatch b u)" by auto
  from Seq.IH(1) [OF u(1)] obtain w1 where "s = w1 @ u" by blast
  moreover from Seq.IH(2) [OF u(2)] obtain w2 where "u = w2 @ t" by blast
  ultimately have "s = (w1 @ w2) @ t" by simp
  then show ?case by blast
next
  case (Alt a b)
  then show ?case by auto
next
  case (Opt a)
  then show ?case by auto
next
  case (Star a)
  from Star.prems have "t \<in> set (star_iter (rmatch a) (length s) s)" by simp
  then show ?case using Star.IH by (rule star_iter_suffix [rotated])
qed

lemma first_char:
  assumes "t \<in> set (rmatch (Seq (Seq (Cls [Lit c]) a) b) s)"
  shows "\<exists>x w. s = x # w @ t \<and> lower x = lower c"
proof -
  from assms obtain u where
    u: "u \<in> set (rmatch (Cls [Lit c]) s)" "t \<in> set (rmatch (Seq a b) u)"
    by auto
  from u(1) obtain x where x: "s = x # u" "lower x = lower c"
    by (auto simp: cls_ok_def split: list.splits if_splits)
  from rmatch_suffix [OF u(2)] obtain w where "u = w @ t" by blast
  with x show ?thesis by blast
qed

lemma strip_nonempty: "\<not> is_space x \<Longrightarrow> strip (x # w) \<noteq> []"
  by (auto simp: strip_def dropWhile_eq_Nil_conv)

lemma lower_cases: "lower x = x \<or> is_alpha x"
proof (cases "map_of (zip ''ABCDEFGHIJKLMNOPQRSTUVWXYZ'' ''abcdefghijklmnopqrstuvwxyz'') x")
  case None
  then show ?thesis by (simp add: lower_def)
next
  case (Some l)
  then have "(x, l) \<in> set (zip ''ABCDEFGHIJKLMNOPQRSTUVWXYZ'' ''abcdefghijklmnopqrstuvwxyz'')"
    by (rule map_of_SomeD)
  then have "x \<in> set ''ABCDEFGHIJKLMNOPQRSTUVWXYZ''" by (rule set_zip_leftD)
  then show ?thesis unfolding is_alpha_def by blast
qed

lemma alpha_not_space: "is_alpha x \<Longrightarrow> \<not> is_space x"
  unfolding is_alpha_def is_space_def by auto

lemma lower_not_space: "\<not> is_space (lower c) \<Longrightarrow> lower x = lower c \<Longrightarrow> \<not> is_space x"
  using lower_cases [of x] alpha_not_space [of x] by auto

lemma grp_first_nonspace:
  assumes "grp p = Seq (Seq (Cls [Lit c]) a) b" "\<not> is_space (lower c)"
    "re_search p s = Some g"
  shows "strip g \<noteq> []"
proof -
  from re_search_grp [OF assms(3)] obtain t1 t2 where
    m: "t2 \<in> set (rmatch (grp p) t1)" and g: "g = take (length t1 - length t2) t1" by blast
  from first_char [OF m [unfolded assms(1)]] obtain x w where
    x: "t1 = x # w @ t2" "lower x = lower c" by blast
  have "\<not> is_space x" using assms(2) x(2) by (rule lower_not_space)
  moreover have "g = x # w" using g x(1) by simp
  ultimately show ?thesis by (simp add: strip_nonempty)
qed

lemma contractor_grp_nonempty:
  assumes "p \<in> set contractor_patterns" "re_search p s = Some g"
  shows "strip g \<noteq> []"
proof -
  from assms(1) consider "p = xperts_pat" | "p = ceres_pat" | "p = wright_pat"
    unfolding contractor_patterns_def by auto
  then show ?thesis
  proof cases
    case 1
    then have "grp p = Seq (Seq (Cls [Lit CHR ''X'']) (lits ''pert''))
        (seqs [Opt (lit (CHR 0x27)), lits ''s LLC''])"
      by (simp add: xperts_pat_def seqs_def lits_def lit_def)
    then show ?thesis
      by (rule grp_first_nonspace [OF _ _ assms(2)]) (simp add: lower_def is_space_def)
  next
    case 2
    then have "grp p = Seq (Seq (Cls [Lit CHR ''C'']) (lits ''eres Environmental Services,''))
        (seqs [Star (Cls [Space]), lits ''Inc'', Opt (lit CHR ''.'')])"
      by (simp add: ceres_pat_def seqs_def lits_def lit_def)
    then show ?thesis
      by (rule grp_first_nonspace [OF _ _ assms(2)]) (simp add: lower_def is_space_def)
  next
    case 3
    then have "grp p = Seq (Seq (Cls [Lit CHR ''W'']) (lits ''right Tree Service of Puerto Rico,''))
        (seqs [Star (Cls [Space]), lits ''LLC''])"
      by (simp add: wright_pat_def seqs_def lits_def lit_def)
    then show ?thesis
      by (rule grp_first_nonspace [OF _ _ assms(2)]) (simp add: lower_def is_space_def)
  qed
qed

lemma contractor_name_nonempty:
  assumes "extract_contractor_name s = Some n"
  shows "n \<noteq> []"
proof -
  from assms obtain i g where
    "i < length contractor_patterns" "re_search (contractor_patterns ! i) s = Some g" "n = strip g"
    unfolding extract_contractor_name_def contractor_loop_Some by blast
  then show ?thesis using contractor_grp_nonempty [of "contractor_patterns ! i" s g] by simp
qed

lemma lits_Cons: "lits (c # cs) = Seq (Cls [Lit c]) (lits cs)"
  by (simp add: lits_def lit_def)

lemma lits_Nil: "lits [] = Eps"
  by (simp add: lits_def)

lemma rmatch_lits:
  "t \<in> set (rmatch (lits cs) u) \<Longrightarrow> \<exists>w. u = w @ t \<and> list_all2 (\<lambda>x c. lower x = lower c) w cs"
proof (induction cs arbitrary: u)
  case Nil
  then show ?case by (simp add: lits_Nil)
next
  case (Cons c cs)
  from Cons.prems obtain v where
    v: "v \<in> set (rmatch (Cls [Lit c]) u)" "t \<in> set (rmatch (lits cs) v)"
    unfolding lits_Cons by auto
  from v(1) obtain x where x: "u = x # v" "lower x = lower c"
    by (auto simp: cls_ok_def split: list.splits if_splits)
  from Cons.IH [OF v(2)] obtain w where
    w: "v = w @ t" "list_all2 (\<lambda>x c. lower x = lower c) w cs" by blast
  from x w have "u = (x # w) @ t \<and> list_all2 (\<lambda>x c. lower x = lower c) (x # w) (c # cs)"
    by simp
  then show ?case by blast
qed

lemma rmatch_lits_last:
  assumes "t \<in> set (rmatch (lits cs) u)" "cs \<noteq> []" "\<not> is_space (lower (last cs))"
  shows "\<exists>w. u = w @ t \<and> w \<noteq> [] \<and> \<not> is_space (last w)"
proof -
  from rmatch_lits [OF assms(1)] obtain w where
    w: "u = w @ t" "list_all2 (\<lambda>x c. lower x = lower c) w cs" by blast
  from w(2) have l: "length w = length cs" by (rule list_all2_lengthD)
  with assms(2) have ne: "w \<noteq> []" by auto
  from w(2) l ne have "lower (last w) = lower (last cs)"
    by (simp add: list_all2_conv_all_nth last_conv_nth assms(2))
  with assms(3) have "\<not> is_space (last w)" using lower_not_space by blast
  with w(1) ne show ?thesis by blast
qed

lemma seq_front:
  assumes "t \<in> set (rmatch (Seq a b) s)"
    and "\<And>u. t \<in> set (rmatch b u) \<Longrightarrow> \<exists>w. u = w @ t \<and> w \<noteq> [] \<and> \<not> is_space (last w)"
  shows "\<exists>w. s = w @ t \<and> w \<noteq> [] \<and> \<not> is_space (last w)"
proof -
  from assms(1) obtain u where u: "u \<in> set (rmatch a s)" "t \<in> set (rmatch b u)" by auto
  from rmatch_suffix [OF u(1)] obtain w1 where w1: "s = w1 @ u" by blast
  from assms(2) [OF u(2)] obtain w2 where w2: "u = w2 @ t" "w2 \<noteq> []" "\<not> is_space (last w2)"
    by blast
  from w1 w2 have "s = (w1 @ w2) @ t \<and> w1 @ w2 \<noteq> [] \<and> \<not> is_space (last (w1 @ w2))"
    by simp
  then show ?thesis by blast
qed

lemma ends_lits:
  assumes "t \<in> set (rmatch (Seq (lits cs) Eps) u)" "cs \<noteq> []" "\<not> is_space (lower (last cs))"
  shows "\<exists>w. u = w @ t \<and> w \<noteq> [] \<and> \<not> is_space (last w)"
proof -
  from assms(1) have "t \<in> set (rmatch (lits cs) u)" by auto
  from rmatch_lits_last [OF this assms(2,3)] show ?thesis .
qed

lemma ends_lits_opt:
  assumes "t \<in> set (rmatch (Seq (lits cs) (Seq (Opt (Cls [Lit c])) Eps)) u)"
    "cs \<noteq> []" "\<not> is_space (lower (last cs))" "\<not> is_space (lower c)"
  shows "\<exists>w. u = w @ t \<and> w \<noteq> [] \<and> \<not> is_space (last w)"
proof -
  from assms(1) obtain v where
    v: "v \<in> set (rmatch (lits cs) u)" "t \<in> set (rmatch (Opt (Cls [Lit c])) v)" by auto
  from rmatch_lits_last [OF v(1) assms(2,3)] obtain w where
    w: "u = w @ v" "w \<noteq> []" "\<not> is_space (last w)" by blast
  from v(2) consider "t = v" | x where "v = x # t" "lower x = lower c"
    by (auto simp: cls_ok_def split: list.splits if_splits)
  then show ?thesis
  proof cases
    case 1
    with w show ?thesis by blast
  next
    case 2
    from 2(2) assms(4) have "\<not> is_space x" using lower_not_space by blast
    with 2(1) w(1) have "u = (w @ [x]) @ t \<and> w @ [x] \<noteq> [] \<and> \<not> is_space (last (w @ [x]))"
      by simp
    then show ?thesis by blast
  qed
qed

lemma contractor_grp_end:
  assumes "p \<in> set contractor_patterns" "t \<in> set (rmatch (grp p) s)"
  shows "\<exists>w. s = w @ t \<and> w \<noteq> [] \<and> \<not> is_space (last w)"
proof -
  from assms(1) consider "p = xperts_pat" | "p = ceres_pat" | "p = wright_pat"
    unfolding contractor_patterns_def by auto
  then show ?thesis
  proof cases
    case 1
    then have g: "grp p = Seq (lits ''Xpert'') (Seq (Opt (lit (CHR 0x27))) (Seq (lits ''s LLC'') Eps))"
      by (simp add: xperts_pat_def seqs_def)
    have e: "\<exists>w. u = w @ t \<and> w \<noteq> [] \<and> \<not> is_space (last w)"
      if "t \<in> set (rmatch (Seq (lits ''s LLC'') Eps) u)" for u
      using that by (rule ends_lits) (simp_all add: lower_def is_space_def)
    show ?thesis
      using assms(2) unfolding g
      by (rule seq_front) (erule seq_front, erule e)
  next
    case 2
    then have g: "grp p = Seq (lits ''Ceres Environmental Services,'')
        (Seq (Star (Cls [Space])) (Seq (lits ''Inc'') (Seq (Opt (Cls [Lit CHR ''.''])) Eps)))"
      by (simp add: ceres_pat_def seqs_def lit_def)
    have e: "\<exists>w. u = w @ t \<and> w \<noteq> [] \<and> \<not> is_space (last w)"
      if "t \<in> set (rmatch (Seq (lits ''Inc'') (Seq (Opt (Cls [Lit CHR ''.''])) Eps)) u)" for u
      using that by (rule ends_lits_opt) (simp_all add: lower_def is_space_def)
    show ?thesis
      using assms(2) unfolding g
      by (rule seq_front) (erule seq_front, erule e)
  next
    case 3
    then have g: "grp p = Seq (lits ''Wright Tree Service of Puerto Rico,'')
        (Seq (Star (Cls [Space])) (Seq (lits ''LLC'') Eps))"
      by (simp add: wright_pat_def seqs_def)
    have e: "\<exists>w. u = w @ t \<and> w \<noteq> [] \<and> \<not> is_space (last w)"
      if "t \<in> set (rmatch (Seq (lits ''LLC'') Eps) u)" for u
      using that by (rule ends_lits) (simp_all add: lower_def is_space_def)
    show ?thesis
      using assms(2) unfolding g
      by (rule seq_front) (erule seq_front, erule e)
  qed
qed

text \<open>A match of a contractor pattern begins and ends with a character that is no blank:
  \<open>strip\<close> returns it as it is.\<close>

lemma contractor_capture_unstripped:
  assumes "p \<in> set contractor_patterns" "re_search p s = Some g"
  shows "strip g = g"
proof -
  from re_search_grp [OF assms(2)] obtain t1 t2 where
    m: "t2 \<in> set (rmatch (grp p) t1)" and g: "g = take (length t1 - length t2) t1" by blast
  from contractor_grp_end [OF assms(1) m] obtain w where
    w: "t1 = w @ t2" "w \<noteq> []" "\<not> is_space (last w)" by blast
  have gw: "g = w" using g w(1) by simp
  have "\<not> is_space (hd g)"
  proof
    assume h: "is_space (hd g)"
    from assms(1) consider "p = xperts_pat" | "p = ceres_pat" | "p = wright_pat"
      unfolding contractor_patterns_def by auto
    then obtain c a b where
      p: "grp p = Seq (Seq (Cls [Lit c]) a) b" "\<not> is_space (lower c)"
    proof cases
      case 1
      have "grp xperts_pat = Seq (Seq (Cls [Lit CHR ''X'']) (lits ''pert''))
          (seqs [Opt (lit (CHR 0x27)), lits ''s LLC''])"
        by (simp add: xperts_pat_def seqs_def lits_def lit_def)
      moreover have "\<not> is_space (lower CHR ''X'')" by (simp add: lower_def is_space_def)
      ultimately show ?thesis using that 1 by simp
    next
      case 2
      have "grp ceres_pat = Seq (Seq (Cls [Lit CHR ''C'']) (lits ''eres Environmental Services,''))
          (seqs [Star (Cls [Space]), lits ''Inc'', Opt (lit CHR ''.'')])"
        by (simp add: ceres_pat_def seqs_def lits_def lit_def)
      moreover have "\<not> is_space (lower CHR ''C'')" by (simp add: lower_def is_space_def)
      ultimately show ?thesis using that 2 by simp
    next
      case 3
      have "grp wright_pat = Seq (Seq (Cls [Lit CHR ''W'']) (lits ''right Tree Service of Puerto Rico,''))
          (seqs [Star (Cls [Space]), lits ''LLC''])"
        by (simp add: wright_pat_def seqs_def lits_def lit_def)
      moreover have "\<not> is_space (lower CHR ''W'')" by (simp add: lower_def is_space_def)
      ultimately show ?thesis using that 3 by simp
    qed
    from first_char [OF m [unfolded p(1)]] obtain x v where
      x: "t1 = x # v @ t2" "lower x = lower c" by blast
    have "\<not> is_space x" using p(2) x(2) by (rule lower_not_space)
    moreover have "g = x # v" using g x(1) by simp
    ultimately show False using h by simp
  qed
  with w(2,3) gw show ?thesis by (simp add: strip_id)
qed

text \<open>
  Claim C8, as amended. \<open>extract_contractor_name\<close> tries the contractor patterns in
  their order on the whole text, each search ignoring case, and returns the text that
  the first matching pattern matched, exactly as the page spells it: the \<open>strip\<close> changes
  nothing, and neither case nor apostrophe nor spacing is brought to one form. The
  record carries that text as \<open>Contractor\<close>. When no pattern matches, nothing is returned,
  the third log line is the warning (level \<open>WARNING\<close>, not \<open>ERROR\<close>), and the returned
  record has no \<open>Contractor\<close> field.
\<close>

theorem contractor_resolution:
  "(extract_contractor_name s = Some n \<longleftrightarrow>
      (\<exists>i<length contractor_patterns.
         (\<forall>j<i. re_search (contractor_patterns ! j) s = None) \<and>
         re_search (contractor_patterns ! i) s = Some n)) \<and>
   (extract_contractor_name s = Some n \<longrightarrow>
      strip n = n \<and>
      (\<forall>d. snd (extract_pdf_data (Page (Some s))) = Some d \<longrightarrow>
           dict_get d ''Contractor'' = Some (CStr n))) \<and>
   ((\<forall>p \<in> set contractor_patterns. re_search p s = None) \<longrightarrow>
      extract_contractor_name s = None \<and>
      fst (extract_pdf_data (Page (Some s))) ! 2 =
        (WARNING, [T ''Could not find contractor name in PDF'']) \<and>
      (\<forall>d. snd (extract_pdf_data (Page (Some s))) = Some d \<longrightarrow>
           dict_get d ''Contractor'' = None))"
proof (intro conjI impI allI)
  have u: "strip g = g" if "i < length contractor_patterns"
    "re_search (contractor_patterns ! i) s = Some g" for i g
    using contractor_capture_unstripped [of "contractor_patterns ! i" s g] that by simp
  show e: "extract_contractor_name s = Some n \<longleftrightarrow>
      (\<exists>i<length contractor_patterns.
         (\<forall>j<i. re_search (contractor_patterns ! j) s = None) \<and>
         re_search (contractor_patterns ! i) s = Some n)" for n
    unfolding extract_contractor_name_def contractor_loop_Some using u by metis
  {
    assume n: "extract_contractor_name s = Some n"
    with e [of n] u show "strip n = n" by blast
  next
    fix d
    assume n: "extract_contractor_name s = Some n"
      and d: "snd (extract_pdf_data (Page (Some s))) = Some d"
    from contractor_name_nonempty [OF n] have ne: "n \<noteq> []" .
    from d obtain lg where "fields_loop s patterns [(''Contractor'', CStr n)] = (lg, Inr d)"
      by (auto simp: extract_pdf_data_def n ne split: prod.splits sum.splits)
    from fields_loop_other [OF this patterns_no_contractor]
    show "dict_get d ''Contractor'' = Some (CStr n)" by (simp add: dict_get_def)
  next
    assume a: "\<forall>p \<in> set contractor_patterns. re_search p s = None"
    then show n: "extract_contractor_name s = None"
      unfolding extract_contractor_name_def by (rule contractor_loop_None)
    show "fst (extract_pdf_data (Page (Some s))) ! 2 =
          (WARNING, [T ''Could not find contractor name in PDF''])"
      by (simp add: extract_pdf_data_def n split: prod.splits sum.splits)
    fix d assume d: "snd (extract_pdf_data (Page (Some s))) = Some d"
    then obtain lg where "fields_loop s patterns [] = (lg, Inr d)"
      by (auto simp: extract_pdf_data_def n split: prod.splits sum.splits)
    from fields_loop_other [OF this patterns_no_contractor]
    show "dict_get d ''Contractor'' = None" by (simp add: dict_get_def)
  }
qed

theorem contractor_resolution_witness:
  "extract_contractor_name ''by XPERTS llc'' = Some ''XPERTS llc'' \<and>
   strip ''XPERTS llc'' = ''XPERTS llc'' \<and>
   snd (extract_pdf_data (Page (Some ''by XPERTS llc''))) = Some [(''Contractor'', CStr ''XPERTS llc'')] \<and>
   dict_get [(''Contractor'', CStr ''XPERTS llc'')] ''Contractor'' = Some (CStr ''XPERTS llc'') \<and>
   re_search xperts_pat ''n/a'' = None \<and> re_search ceres_pat ''n/a'' = None \<and>
   re_search wright_pat ''n/a'' = None \<and>
   extract_contractor_name ''n/a'' = None \<and>
   fst (extract_pdf_data (Page (Some ''n/a''))) ! 2 =
     (WARNING, [T ''Could not find contractor name in PDF'']) \<and>
   snd (extract_pdf_data (Page (Some ''n/a''))) = Some [] \<and>
   dict_get [] ''Contractor'' = None"
proof -
  have a: "extract_contractor_name ''by XPERTS llc'' = Some ''XPERTS llc''" by code_simp
  have b: "snd (extract_pdf_data (Page (Some ''by XPERTS llc''))) =
             Some [(''Contractor'', CStr ''XPERTS llc'')]" by code_simp
  have c: "re_search xperts_pat ''n/a'' = None" "re_search ceres_pat ''n/a'' = None"
    "re_search wright_pat ''n/a'' = None" by code_simp+
  then have d: "\<forall>p \<in> set contractor_patterns. re_search p ''n/a'' = None"
    by (simp add: contractor_patterns_def)
  have e: "snd (extract_pdf_data (Page (Some ''n/a''))) = Some []" by code_simp
  from contractor_resolution [of "''by XPERTS llc''" "''XPERTS llc''"] a b
  have "strip ''XPERTS llc'' = ''XPERTS llc'' \<and>
    dict_get [(''Contractor'', CStr ''XPERTS llc'')] ''Contractor'' = Some (CStr ''XPERTS llc'')"
    by blast
  moreover from contractor_resolution [of "''n/a''" "[]"] d e
  have "extract_contractor_name ''n/a'' = None \<and>
     fst (extract_pdf_data (Page (Some ''n/a''))) ! 2 =
       (WARNING, [T ''Could not find contractor name in PDF'']) \<and>
     dict_get [] ''Contractor'' = None"
    by blast
  ultimately show ?thesis using a b c e by blast
qed

text \<open>
  The claim as first stated fails: the name returned is no normal form of the
  contractor's name. Two pages that name the same contractor, matched by the same
  pattern, give two different names; inner blanks are returned as they are.
\<close>

theorem contractor_name_as_spelled:
  "re_search xperts_pat ''XPERTS llc'' = Some ''XPERTS llc'' \<and>
   re_search xperts_pat ''Xperts LLC'' = Some ''Xperts LLC'' \<and>
   extract_contractor_name ''XPERTS llc'' = Some ''XPERTS llc'' \<and>
   extract_contractor_name ''Xperts LLC'' = Some ''Xperts LLC'' \<and>
   extract_contractor_name ''XPERTS llc'' \<noteq> extract_contractor_name ''Xperts LLC'' \<and>
   extract_contractor_name ''ceres environmental services,   inc'' =
     Some ''ceres environmental services,   inc''"
  by code_simp


section \<open>Dates that do not parse\<close>

lemma fields_loop_field:
  assumes "fields_loop s fps d = (lg, Inr d')" "fp \<in> set fps" "distinct (map fst fps)"
    "\<And>d0. snd (extract_field s fp d0) = Inr (dict_set d0 (fst fp) v)"
  shows "dict_get d' (fst fp) = Some v"
  using assms(1-3)
proof (induction fps arbitrary: d lg)
  case Nil
  then show ?case by simp
next
  case (Cons q fps)
  from Cons.prems(1) obtain l1 d1 l2 where
    a: "extract_field s q d = (l1, Inr d1)" and b: "fields_loop s fps d1 = (l2, Inr d')"
    by (auto split: prod.splits sum.splits)
  show ?case
  proof (cases "fp = q")
    case True
    from assms(4) [of d] a True have d1: "d1 = dict_set d (fst fp) v" by simp
    from Cons.prems(3) True have "fst fp \<notin> fst ` set fps" by simp
    from fields_loop_other [OF b this] d1 show ?thesis by (simp add: dict_get_set)
  next
    case False
    with Cons.prems(2) have "fp \<in> set fps" by simp
    moreover from Cons.prems(3) have "distinct (map fst fps)" by simp
    ultimately show ?thesis using Cons.IH [OF b] by blast
  qed
qed

lemma patterns_distinct: "distinct (map fst patterns)"
  by (simp add: patterns_def)

lemma extract_pdf_data_Some:
  assumes "snd (extract_pdf_data (Page (Some s))) = Some d"
  shows "\<exists>lg d0. fields_loop s patterns d0 = (lg, Inr d)"
  using assms
  by (auto simp: extract_pdf_data_def Let_def split: prod.splits sum.splits option.splits if_splits)

lemma contains_Date:
  "contains ''Date'' ''Task Order Start Date''" "contains ''Date'' ''Task Order End Date''"
  by simp_all

lemma convert_date_raw:
  assumes "f = ''Task Order Start Date'' \<or> f = ''Task Order End Date''"
    "parse_date v = None"
  shows "convert_value f v =
           Inr (CStr v, [(ERROR, [T ''Error parsing date '', V (Some (CStr v)), T '': ''])])"
  using assms(1)
proof
  assume "f = ''Task Order Start Date''"
  then show ?thesis
    unfolding convert_value_def
    by (simp only: contains_Date assms(2) list.inject char.inject if_False if_True
          option.case simp_thms)
next
  assume "f = ''Task Order End Date''"
  then show ?thesis
    unfolding convert_value_def
    by (simp only: contains_Date assms(2) list.inject char.inject if_False if_True
          option.case simp_thms)
qed

lemma parse_date_None: "strptime v Y2 = None \<Longrightarrow> strptime v Y4 = None \<Longrightarrow> parse_date v = None"
  by (simp add: parse_date_def)

text \<open>
  Claim C5. When the pattern of a date field matches and the captured string parses
  under neither date format, the round of the loop logs the error and ends normally with
  the raw string stored under the field, so the loop goes on; every record the extractor
  returns for such a text holds the raw string in that field.
\<close>

theorem unparseable_date_kept_raw:
  assumes "(f, p) = (''Task Order Start Date'', start_date_pat) \<or>
           (f, p) = (''Task Order End Date'', end_date_pat)"
    and "re_search p s = Some g"
    and "strptime (strip g) Y2 = None" and "strptime (strip g) Y4 = None"
  shows "extract_field s (f, p) data =
           ([(ERROR, [T ''Error parsing date '', V (Some (CStr (strip g))), T '': '']),
             (INFO, [T (''Extracted '' @ f @ '': ''), V (Some (CStr (strip g)))])],
            Inr (dict_set data f (CStr (strip g)))) \<and>
         (\<forall>d. snd (extract_pdf_data (Page (Some s))) = Some d \<longrightarrow>
              dict_get d f = Some (CStr (strip g)))"
proof (intro conjI allI impI)
  from assms(1) have f: "f = ''Task Order Start Date'' \<or> f = ''Task Order End Date''" by auto
  have step: "extract_field s (f, p) d0 =
           ([(ERROR, [T ''Error parsing date '', V (Some (CStr (strip g))), T '': '']),
             (INFO, [T (''Extracted '' @ f @ '': ''), V (Some (CStr (strip g)))])],
            Inr (dict_set d0 f (CStr (strip g))))" for d0
    by (simp add: extract_field_def assms(2) convert_date_raw [OF f parse_date_None [OF assms(3,4)]])
  show "extract_field s (f, p) data =
           ([(ERROR, [T ''Error parsing date '', V (Some (CStr (strip g))), T '': '']),
             (INFO, [T (''Extracted '' @ f @ '': ''), V (Some (CStr (strip g)))])],
            Inr (dict_set data f (CStr (strip g))))"
    by (rule step)
  fix d assume "snd (extract_pdf_data (Page (Some s))) = Some d"
  from extract_pdf_data_Some [OF this] obtain lg d0 where
    fl: "fields_loop s patterns d0 = (lg, Inr d)" by blast
  from assms(1) have mem: "(f, p) \<in> set patterns" by (auto simp: patterns_def)
  have "dict_get d (fst (f, p)) = Some (CStr (strip g))"
    by (rule fields_loop_field [OF fl mem patterns_distinct]) (simp add: step)
  then show "dict_get d f = Some (CStr (strip g))" by simp
qed

theorem unparseable_date_kept_raw_witness:
  "re_search start_date_pat ''Start Date: 13/45/24'' = Some ''13/45/24'' \<and>
   strptime (strip ''13/45/24'') Y2 = None \<and> strptime (strip ''13/45/24'') Y4 = None \<and>
   extract_field ''Start Date: 13/45/24'' (''Task Order Start Date'', start_date_pat) [] =
     ([(ERROR, [T ''Error parsing date '', V (Some (CStr (strip ''13/45/24''))), T '': '']),
       (INFO, [T (''Extracted '' @ ''Task Order Start Date'' @ '': ''),
               V (Some (CStr (strip ''13/45/24'')))])],
      Inr (dict_set [] ''Task Order Start Date'' (CStr (strip ''13/45/24'')))) \<and>
   snd (extract_pdf_data (Page (Some ''Start Date: 13/45/24''))) =
     Some [(''Task Order Start Date'', CStr ''13/45/24'')] \<and>
   dict_get [(''Task Order Start Date'', CStr ''13/45/24'')] ''Task Order Start Date'' =
     Some (CStr (strip ''13/45/24''))"
proof -
  have a: "re_search start_date_pat ''Start Date: 13/45/24'' = Some ''13/45/24''" by code_simp
  have b: "strptime (strip ''13/45/24'') Y2 = None" by code_simp
  have c: "strptime (strip ''13/45/24'') Y4 = None" by code_simp
  have d: "snd (extract_pdf_data (Page (Some ''Start Date: 13/45/24''))) =
     Some [(''Task Order Start Date'', CStr ''13/45/24'')]" by code_simp
  from unparseable_date_kept_raw [of "''Task Order Start Date''" start_date_pat
      "''Start Date: 13/45/24''" "''13/45/24''" "[]", OF _ a b c] d
  have "extract_field ''Start Date: 13/45/24'' (''Task Order Start Date'', start_date_pat) [] =
     ([(ERROR, [T ''Error parsing date '', V (Some (CStr (strip ''13/45/24''))), T '': '']),
       (INFO, [T (''Extracted '' @ ''Task Order Start Date'' @ '': ''),
               V (Some (CStr (strip ''13/45/24'')))])],
      Inr (dict_set [] ''Task Order Start Date'' (CStr (strip ''13/45/24'')))) \<and>
     dict_get [(''Task Order Start Date'', CStr ''13/45/24'')] ''Task Order Start Date'' =
       Some (CStr (strip ''13/45/24''))"
    by blast
  with a b c d show ?thesis by (intro conjI) (erule conjunct1 conjunct2 | assumption)+
qed

section \<open>The two spellings of a date\<close>

























text \<open>
  What reaches the conversion from a page: the alternation of the date patterns tries
  two digits first and nothing follows it, so a four-digit year on the page is captured
  by its first two digits.
\<close>

lemma date_pattern_stops_after_two_digits:
  "re_search start_date_pat ''Start Date: 01/05/2024'' = Some ''01/05/20'' \<and>
   convert_value ''Task Order Start Date'' ''01/05/20'' = Inr (CStr ''01/05/2020'', [])"
  by code_simp

section \<open>A mileage that does not convert\<close>

text \<open>
  Claim C6 says that a page whose text was decoded always yields a record, whatever
  happens to a single field. The date branch has its own handler for \<open>ValueError\<close>; the
  numeric branches have none. On the decoded text below the mileage pattern captures
  \<open>1.2.3\<close>, \<open>float\<close> raises, and the extractor returns no record.
\<close>

theorem malformed_mileage_aborts_document:
  "re_search miles_pat ''Length: 1.2.3 overhead miles'' = Some ''1.2.3'' \<and>
   py_float ''1.2.3'' = None \<and>
   convert_value ''Feeder Total Miles'' ''1.2.3'' = Inl ValueError \<and>
   snd (extract_pdf_data (Page (Some ''Length: 1.2.3 overhead miles''))) = None"
  by code_simp

theorem malformed_mileage_aborts_document_witness:
  "snd (extract_pdf_data (Page (Some ''Length: 1.2.3 overhead miles''))) = None"
  using malformed_mileage_aborts_document by (elim conjE)

section \<open>Facts about the merger\<close>

lemma starts_before_total: "\<not> starts_before a b \<Longrightarrow> starts_before b a"
  by (auto simp: starts_before_def split: option.splits)

lemma starts_before_trans: "starts_before a b \<Longrightarrow> starts_before b c \<Longrightarrow> starts_before a c"
  by (auto simp: starts_before_def split: option.splits)

lemma set_insert_row: "set (insert_row r xs) = insert r (set xs)"
  by (induction xs) auto

lemma mset_insert_row: "mset (insert_row r xs) = add_mset r (mset xs)"
  by (induction xs) auto

lemma sorted_insert_row:
  "sorted_wrt starts_before xs \<Longrightarrow> sorted_wrt starts_before (insert_row r xs)"
proof (induction xs)
  case Nil
  then show ?case by simp
next
  case (Cons x xs)
  show ?case
  proof (cases "starts_before r x")
    case True
    have "\<forall>y \<in> set xs. starts_before r y"
      using Cons.prems True starts_before_trans by auto
    with True Cons.prems show ?thesis by simp
  next
    case False
    then have "starts_before x r" by (rule starts_before_total)
    with False Cons show ?thesis by (auto simp: set_insert_row)
  qed
qed

lemma mset_sort_values: "mset (sort_values rs) = mset rs"
  unfolding sort_values_def by (induction rs) (simp_all add: mset_insert_row)

lemma set_sort_values: "set (sort_values rs) = set rs"
  using mset_sort_values [of rs] by (metis set_mset_mset)

lemma length_sort_values: "length (sort_values rs) = length rs"
  using mset_sort_values [of rs] by (metis size_mset)

lemma sorted_sort_values: "sorted_wrt starts_before (sort_values rs)"
  unfolding sort_values_def by (induction rs) (simp_all add: sorted_insert_row)

lemma to_datetime_cell_result:
  "to_datetime_cell lib c = Inr c' \<Longrightarrow> c' = None \<or> (\<exists>t. c' = Some (CTime t))"
  by (cases "(lib, c)" rule: to_datetime_cell.cases) (auto split: sum.splits option.splits)

lemma to_datetime_rows_all2:
  "to_datetime_rows lib xs = Inr rs \<Longrightarrow>
   list_all2 (\<lambda>r r'. \<exists>c. to_datetime_cell lib (r ''Task Order Start Date'') = Inr c \<and>
                        r' = r(''Task Order Start Date'' := c)) xs rs"
proof (induction xs arbitrary: rs)
  case Nil
  then show ?case by simp
next
  case (Cons x xs)
  from Cons.prems obtain c rs' where
    c: "to_datetime_cell lib (x ''Task Order Start Date'') = Inr c" and
    r: "to_datetime_rows lib xs = Inr rs'" and
    e: "rs = x(''Task Order Start Date'' := c) # rs'"
    by (auto split: sum.splits)
  from Cons.IH [OF r] c e show ?case by auto
qed

text \<open>The one path of \<open>update_excel\<close> that writes the workbook.\<close>

lemma update_excel_success:
  assumes "update_excel lib data store =
             (store', (INFO, [T ''Successfully updated Excel file with task order: '', V k]))"
  shows "\<exists>df rs. df = (case store of None \<Rightarrow> \<lparr>columns = init_columns, rows = []\<rparr>
                                   | Some f \<Rightarrow> read_excel lib f) \<and>
           to_datetime_rows lib (rows (pd_concat df data)) = Inr rs \<and>
           store' = Some \<lparr>columns = columns (pd_concat df data), rows = sort_values rs\<rparr> \<and>
           truthy (dict_get data ''Task Order #'') \<and> k = dict_get data ''Task Order #'' \<and>
           ''Task Order #'' \<in> set (columns df) \<and>
           \<not> key_exists lib df (the (dict_get data ''Task Order #''))"
  using assms
  by (auto simp: update_excel_def Let_def split: if_splits sum.splits)


section \<open>A record without a key\<close>

text \<open>
  Claim C1, as amended. For every record that carries no \<open>Task Order #\<close> (or an empty
  one) the merge leaves the store as it was and logs that the task order already exists:
  the condition of the append asks for a key, so the record is not appended.
\<close>

theorem keyless_record_not_appended:
  assumes "dict_get data ''Task Order #'' = None \<or> dict_get data ''Task Order #'' = Some (CStr [])"
  shows "update_excel lib data store =
           (store, (INFO, [T ''Task order '', V (dict_get data ''Task Order #''),
                           T '' already exists in Excel file'']))"
  using assms by (auto simp: update_excel_def Let_def)

theorem keyless_record_not_appended_witness:
  "dict_get [(''Contractor'', CStr ''Xperts LLC'')] ''Task Order #'' = None \<and>
   update_excel pandas_mdy [(''Contractor'', CStr ''Xperts LLC'')]
       (Some \<lparr>columns = init_columns, rows = []\<rparr>) =
     (Some \<lparr>columns = init_columns, rows = []\<rparr>,
      (INFO, [T ''Task order '', V (dict_get [(''Contractor'', CStr ''Xperts LLC'')] ''Task Order #''),
              T '' already exists in Excel file'']))"
proof -
  have a: "dict_get [(''Contractor'', CStr ''Xperts LLC'')] ''Task Order #'' = None"
    by (simp add: dict_get_def)
  then have "dict_get [(''Contractor'', CStr ''Xperts LLC'')] ''Task Order #'' = None \<or>
    dict_get [(''Contractor'', CStr ''Xperts LLC'')] ''Task Order #'' = Some (CStr [])" by (rule disjI1)
  from keyless_record_not_appended [OF this] a show ?thesis by blast
qed

text \<open>
  The claim as first stated fails: a record with a contractor and no key, merged into the
  empty store, leaves the store without rows.
\<close>

theorem keyless_record_counterexample:
  "dict_get [(''Contractor'', CStr ''Xperts LLC'')] ''Task Order #'' = None \<and>
   fst (update_excel pandas_mdy [(''Contractor'', CStr ''Xperts LLC'')]
          (Some \<lparr>columns = init_columns, rows = []\<rparr>)) =
     Some \<lparr>columns = init_columns, rows = []\<rparr> \<and>
   fst (update_excel pandas_mdy [(''Contractor'', CStr ''Xperts LLC'')] None) = None"
  by (simp add: update_excel_def dict_get_def Let_def)


section \<open>Order of the rows\<close>

lemma to_datetime_rows_parsed:
  assumes "to_datetime_rows lib xs = Inr rs" "r \<in> set rs"
  shows "r ''Task Order Start Date'' = None \<or> (\<exists>t. r ''Task Order Start Date'' = Some (CTime t))"
proof -
  from to_datetime_rows_all2 [OF assms(1)] assms(2) obtain x c where
    "to_datetime_cell lib (x ''Task Order Start Date'') = Inr c"
    "r = x(''Task Order Start Date'' := c)"
    by (auto simp: in_set_conv_nth list_all2_conv_all_nth)
  with to_datetime_cell_result [of lib _ c] show ?thesis by auto
qed

text \<open>
  Claim C3. After a merge that appends a row, the rows of the written store stand in
  non-increasing order of their parsed start date: of two rows with a date, the earlier
  row in the store has the later or equal date. Every start date of the written store is
  a parsed time stamp or missing, and the rows without a date stand last.
\<close>

theorem rows_sorted_after_append:
  assumes "update_excel lib data store =
             (store', (INFO, [T ''Successfully updated Excel file with task order: '', V k]))"
  shows "\<exists>st. store' = Some st \<and>
           sorted_wrt starts_before (rows st) \<and>
           (\<forall>i j x y. i < j \<and> j < length (rows st) \<and> start_of (rows st ! i) = Some x \<and>
                start_of (rows st ! j) = Some y \<longrightarrow> y \<le> x) \<and>
           (\<forall>r \<in> set (rows st). r ''Task Order Start Date'' = None \<or>
                (\<exists>t. r ''Task Order Start Date'' = Some (CTime t)))"
proof -
  from update_excel_success [OF assms] obtain xs rs cs where
    rs: "to_datetime_rows lib xs = Inr rs" and
    st: "store' = Some \<lparr>columns = cs, rows = sort_values rs\<rparr>"
    by blast
  have s: "sorted_wrt starts_before (sort_values rs)" by (rule sorted_sort_values)
  have o: "y \<le> x" if "i < j" "j < length (sort_values rs)"
    "start_of (sort_values rs ! i) = Some x" "start_of (sort_values rs ! j) = Some y" for i j x y
  proof -
    from s that(1,2) have "starts_before (sort_values rs ! i) (sort_values rs ! j)"
      by (simp add: sorted_wrt_iff_nth_less)
    with that(3,4) show ?thesis by (simp add: starts_before_def)
  qed
  have p: "r ''Task Order Start Date'' = None \<or> (\<exists>t. r ''Task Order Start Date'' = Some (CTime t))"
    if "r \<in> set (sort_values rs)" for r
    using to_datetime_rows_parsed [OF rs] that by (simp add: set_sort_values)
  from s o p show ?thesis unfolding st by auto
qed

theorem rows_sorted_after_append_witness:
  "snd (update_excel pandas_mdy
     [(''Task Order #'', CStr ''B''), (''Task Order Start Date'', CStr ''02/15/2024'')]
     (Some \<lparr>columns = init_columns,
            rows = [[''Task Order #'' \<mapsto> CStr ''A'', ''Task Order Start Date'' \<mapsto> CTime 0]]\<rparr>)) =
     (INFO, [T ''Successfully updated Excel file with task order: '', V (Some (CStr ''B''))]) \<and>
   map start_of (rows (the (fst (update_excel pandas_mdy
     [(''Task Order #'', CStr ''B''), (''Task Order Start Date'', CStr ''02/15/2024'')]
     (Some \<lparr>columns = init_columns,
            rows = [[''Task Order #'' \<mapsto> CStr ''A'', ''Task Order Start Date'' \<mapsto> CTime 0]]\<rparr>))))) =
     [Some 1707955200000000000, Some 0] \<and>
   sorted_wrt starts_before (rows (the (fst (update_excel pandas_mdy
     [(''Task Order #'', CStr ''B''), (''Task Order Start Date'', CStr ''02/15/2024'')]
     (Some \<lparr>columns = init_columns,
            rows = [[''Task Order #'' \<mapsto> CStr ''A'', ''Task Order Start Date'' \<mapsto> CTime 0]]\<rparr>)))))"
proof -
  let ?u = "update_excel pandas_mdy
     [(''Task Order #'', CStr ''B''), (''Task Order Start Date'', CStr ''02/15/2024'')]
     (Some \<lparr>columns = init_columns,
            rows = [[''Task Order #'' \<mapsto> CStr ''A'', ''Task Order Start Date'' \<mapsto> CTime 0]]\<rparr>)"
  have a: "snd ?u =
     (INFO, [T ''Successfully updated Excel file with task order: '', V (Some (CStr ''B''))])"
    by code_simp
  have b: "map start_of (rows (the (fst ?u))) = [Some 1707955200000000000, Some 0]"
    by code_simp
  from a have "?u =
     (fst ?u, (INFO, [T ''Successfully updated Excel file with task order: '', V (Some (CStr ''B''))]))"
    by (simp add: prod_eq_iff)
  from rows_sorted_after_append [OF this] obtain st where
    "fst ?u = Some st" "sorted_wrt starts_before (rows st)" by blast
  then have "sorted_wrt starts_before (rows (the (fst ?u)))" by simp
  with a b show ?thesis by (intro conjI)
qed


section \<open>Order of the columns\<close>

lemma keys_dict_set: "fst ` set (dict_set d k v) = insert k (fst ` set d)"
proof (induction d)
  case Nil
  show ?case by simp
next
  case (Cons p d)
  obtain a b where p: "p = (a, b)" by (cases p)
  show ?case
  proof (cases "a = k")
    case True
    then show ?thesis by (simp add: p)
  next
    case False
    then have "fst ` set (dict_set (p # d) k v) = insert a (fst ` set (dict_set d k v))"
      by (simp add: p)
    also have "\<dots> = insert a (insert k (fst ` set d))" by (simp only: Cons.IH)
    also have "\<dots> = insert k (fst ` set (p # d))" by (auto simp: p)
    finally show ?thesis .
  qed
qed

lemma extract_field_keys:
  assumes "extract_field s fp d = (lg, Inr d')"
  shows "fst ` set d' \<subseteq> insert (fst fp) (fst ` set d)"
proof -
  from assms have "d' = d \<or> (\<exists>v. d' = dict_set d (fst fp) v)"
    by (auto simp: extract_field_def split: option.splits sum.splits prod.splits)
  then show ?thesis using keys_dict_set [of d "fst fp"] by auto
qed

lemma fields_loop_keys:
  "fields_loop s fps d = (lg, Inr d') \<Longrightarrow> fst ` set d' \<subseteq> fst ` set fps \<union> fst ` set d"
proof (induction fps arbitrary: d lg)
  case Nil
  then show ?case by simp
next
  case (Cons fp fps)
  from Cons.prems obtain l1 d1 l2 where
    a: "extract_field s fp d = (l1, Inr d1)" and b: "fields_loop s fps d1 = (l2, Inr d')"
    by (auto split: prod.splits sum.splits)
  from Cons.IH [OF b] extract_field_keys [OF a] show ?case by auto
qed

text \<open>Every record of the extractor has its keys among the columns of a new store.\<close>

lemma extract_pdf_data_keys:
  assumes "snd (extract_pdf_data doc) = Some d"
  shows "fst ` set d \<subseteq> set init_columns"
proof -
  from assms obtain s where doc: "doc = Page (Some s)"
    by (cases doc) (auto simp: extract_pdf_data_def split: option.splits)
  define d0 where "d0 = snd (case extract_contractor_name s of
      None \<Rightarrow> ([(WARNING, [T ''Could not find contractor name in PDF''])], [])
    | Some name \<Rightarrow>
        if name \<noteq> [] then
          ([(INFO, [T ''Extracted Contractor: '', V (Some (CStr name))])],
           [(''Contractor'', CStr name)])
        else ([(WARNING, [T ''Could not find contractor name in PDF''])], []))"
  have k0: "fst ` set d0 \<subseteq> set init_columns"
    unfolding d0_def by (auto simp: init_columns_def split: option.splits)
  from assms obtain lg where f: "fields_loop s patterns d0 = (lg, Inr d)"
    unfolding doc d0_def extract_pdf_data_def
    by (cases "fields_loop s patterns d0")
      (auto simp: Let_def d0_def split: prod.splits sum.splits)
  have "fst ` set patterns \<subseteq> set init_columns"
    by (simp add: patterns_def init_columns_def)
  with k0 fields_loop_keys [OF f] show ?thesis by blast
qed


text \<open>
  Claim C7, as amended. The columns of the store stand in the order \<open>Task Order #\<close>,
  \<open>Contractor\<close>, \<open>Total Amount\<close>, \<open>Feeder ID\<close>, \<open>Feeder Total Miles\<close>, \<open># of Work Orders\<close>,
  \<open>Task Order Start Date\<close>, \<open>Task Order End Date\<close>: a store that the first write creates,
  for a record whose fields are among these, has its header in exactly this order.
\<close>

theorem first_write_columns:
  assumes "update_excel lib data None = (Some st, lg)"
    and "fst ` set data \<subseteq> set init_columns"
  shows "columns st =
           [''Task Order #'', ''Contractor'', ''Total Amount'', ''Feeder ID'',
            ''Feeder Total Miles'', ''# of Work Orders'',
            ''Task Order Start Date'', ''Task Order End Date'']"
proof -
  from assms(2) have "filter (\<lambda>k. k \<notin> set init_columns) (map fst data) = []"
    by (auto simp: filter_empty_conv)
  with assms(1) have "columns st = init_columns"
    by (auto simp: update_excel_def Let_def pd_concat_def split: if_splits sum.splits)
  then show ?thesis by (simp add: init_columns_def)
qed

theorem first_write_columns_witness:
  "snd (update_excel pandas_mdy [(''Task Order #'', CStr ''TO-1'')] None) =
     (INFO, [T ''Successfully updated Excel file with task order: '', V (Some (CStr ''TO-1''))]) \<and>
   columns (the (fst (update_excel pandas_mdy [(''Task Order #'', CStr ''TO-1'')] None))) =
     [''Task Order #'', ''Contractor'', ''Total Amount'', ''Feeder ID'',
      ''Feeder Total Miles'', ''# of Work Orders'',
      ''Task Order Start Date'', ''Task Order End Date'']"
proof -
  let ?u = "update_excel pandas_mdy [(''Task Order #'', CStr ''TO-1'')] None"
  have a: "snd ?u =
     (INFO, [T ''Successfully updated Excel file with task order: '', V (Some (CStr ''TO-1''))])"
    by code_simp
  then have "?u =
     (fst ?u, (INFO, [T ''Successfully updated Excel file with task order: '', V (Some (CStr ''TO-1''))]))"
    by (simp add: prod_eq_iff)
  from update_excel_success [OF this] obtain st where st: "fst ?u = Some st" by blast
  with a have u: "?u =
     (Some st, (INFO, [T ''Successfully updated Excel file with task order: '', V (Some (CStr ''TO-1''))]))"
    by (simp add: prod_eq_iff)
  have b: "fst ` set [(''Task Order #'', CStr ''TO-1'')] \<subseteq> set init_columns"
    by (simp add: init_columns_def)
  from first_write_columns [OF u b] st a show ?thesis by simp
qed

text \<open>
  The claim as first stated fails: the header of a new store starts with
  \<open>Task Order #\<close>, not with \<open>Contractor\<close>.
\<close>

theorem first_write_columns_not_spec_order:
  "columns (the (fst (update_excel pandas_mdy [(''Task Order #'', CStr ''TO-1'')] None))) =
     [''Task Order #'', ''Contractor'', ''Total Amount'', ''Feeder ID'',
      ''Feeder Total Miles'', ''# of Work Orders'',
      ''Task Order Start Date'', ''Task Order End Date''] \<and>
   spec_columns =
     [''Contractor'', ''Task Order #'', ''Total Amount'', ''Feeder ID'',
      ''Feeder Total Miles'', ''# of Work Orders'',
      ''Task Order Start Date'', ''Task Order End Date''] \<and>
   columns (the (fst (update_excel pandas_mdy [(''Task Order #'', CStr ''TO-1'')] None))) \<noteq>
     spec_columns"
  by code_simp


section \<open>Merging twice\<close>

text \<open>
  Claim C2 says that a second merge of a record with a non-empty key finds the key and
  leaves the store as the first merge left it. The second merge reads the workbook anew,
  and the reading types the cells anew: the key \<open>00123\<close>, written as text, comes back as
  the number 123, whose printed form is not \<open>00123\<close>. The check for the key fails and the
  record is appended a second time.
\<close>

theorem second_merge_appends_duplicate:
  "dict_get [(''Task Order #'', CStr ''00123'')] ''Task Order #'' = Some (CStr ''00123'') \<and>
   snd (update_excel pandas_mdy [(''Task Order #'', CStr ''00123'')] None) =
     (INFO, [T ''Successfully updated Excel file with task order: '', V (Some (CStr ''00123''))]) \<and>
   map (\<lambda>r. r ''Task Order #'')
     (rows (the (fst (update_excel pandas_mdy [(''Task Order #'', CStr ''00123'')] None)))) =
     [Some (CStr ''00123'')] \<and>
   map (\<lambda>r. r ''Task Order #'')
     (rows (read_excel pandas_mdy
        (the (fst (update_excel pandas_mdy [(''Task Order #'', CStr ''00123'')] None))))) =
     [Some (CInt 123)] \<and>
   snd (update_excel pandas_mdy [(''Task Order #'', CStr ''00123'')]
          (fst (update_excel pandas_mdy [(''Task Order #'', CStr ''00123'')] None))) =
     (INFO, [T ''Successfully updated Excel file with task order: '', V (Some (CStr ''00123''))]) \<and>
   map (\<lambda>r. r ''Task Order #'')
     (rows (the (fst (update_excel pandas_mdy [(''Task Order #'', CStr ''00123'')]
          (fst (update_excel pandas_mdy [(''Task Order #'', CStr ''00123'')] None)))))) =
     [Some (CInt 123), Some (CStr ''00123'')]"
  by code_simp

theorem second_merge_appends_duplicate_witness:
  "length (rows (the (fst (update_excel pandas_mdy [(''Task Order #'', CStr ''00123'')]
          (fst (update_excel pandas_mdy [(''Task Order #'', CStr ''00123'')] None)))))) = 2 \<and>
   length (rows (the (fst (update_excel pandas_mdy [(''Task Order #'', CStr ''00123'')] None)))) = 1 \<and>
   fst (update_excel pandas_mdy [(''Task Order #'', CStr ''00123'')]
          (fst (update_excel pandas_mdy [(''Task Order #'', CStr ''00123'')] None))) \<noteq>
     fst (update_excel pandas_mdy [(''Task Order #'', CStr ''00123'')] None)"
proof -
  let ?u1 = "update_excel pandas_mdy [(''Task Order #'', CStr ''00123'')] None"
  let ?u2 = "update_excel pandas_mdy [(''Task Order #'', CStr ''00123'')] (fst ?u1)"
  from second_merge_appends_duplicate have
    a: "map (\<lambda>r. r ''Task Order #'') (rows (the (fst ?u1))) = [Some (CStr ''00123'')]"
    by (elim conjE)
  from second_merge_appends_duplicate have
    b: "map (\<lambda>r. r ''Task Order #'') (rows (the (fst ?u2))) =
          [Some (CInt 123), Some (CStr ''00123'')]"
    by (elim conjE)
  from a have la: "length (rows (the (fst ?u1))) = 1"
    by (metis length_map length_Cons list.size(3) One_nat_def)
  from b have lb: "length (rows (the (fst ?u2))) = 2"
    by (metis length_map length_Cons list.size(3) One_nat_def Suc_1)
  from la lb have "fst ?u2 \<noteq> fst ?u1" by auto
  with la lb show ?thesis by (intro conjI)
qed


section \<open>What an append does to the stored rows\<close>

text \<open>
  Claim C9 says that a merge which appends a row leaves every cell of the rows already
  stored as it was. The merge writes the whole frame it read, and the reading types
  the cells anew: in the store that the first merge below wrote, the key of the stored
  row is the text \<open>00123\<close>; after the merge of a second record the same row holds the
  number 123. Its start date, a time stamp, is the same before and after, and the rows
  are reordered by date.
\<close>

theorem append_rewrites_stored_key:
  "map (\<lambda>r. (r ''Task Order #'', r ''Task Order Start Date''))
     (rows (the (fst (update_excel pandas_mdy
        [(''Task Order #'', CStr ''00123''), (''Task Order Start Date'', CStr ''01/15/2024'')]
        None)))) =
     [(Some (CStr ''00123''), Some (CTime 1705276800000000000))] \<and>
   snd (update_excel pandas_mdy
        [(''Task Order #'', CStr ''B''), (''Task Order Start Date'', CStr ''02/15/2024'')]
        (fst (update_excel pandas_mdy
           [(''Task Order #'', CStr ''00123''), (''Task Order Start Date'', CStr ''01/15/2024'')]
           None))) =
     (INFO, [T ''Successfully updated Excel file with task order: '', V (Some (CStr ''B''))]) \<and>
   map (\<lambda>r. (r ''Task Order #'', r ''Task Order Start Date''))
     (rows (the (fst (update_excel pandas_mdy
        [(''Task Order #'', CStr ''B''), (''Task Order Start Date'', CStr ''02/15/2024'')]
        (fst (update_excel pandas_mdy
           [(''Task Order #'', CStr ''00123''), (''Task Order Start Date'', CStr ''01/15/2024'')]
           None)))))) =
     [(Some (CStr ''B''), Some (CTime 1707955200000000000)),
      (Some (CInt 123), Some (CTime 1705276800000000000))]"
  by code_simp

theorem append_rewrites_stored_key_witness:
  "map (\<lambda>r. (r ''Task Order #'', r ''Task Order Start Date''))
     (rows (the (fst (update_excel pandas_mdy
        [(''Task Order #'', CStr ''00123''), (''Task Order Start Date'', CStr ''01/15/2024'')]
        None)))) =
     [(Some (CStr ''00123''), Some (CTime 1705276800000000000))]"
  using append_rewrites_stored_key by (elim conjE)

end
